theory Spec2Isabelle
  imports Main "HOL-Library.Sublist" "HOL-Library.AList"
begin

section \<open>JavaScript values and strings\<close>

text \<open>
  Strings are lists of code units. An optional string (\<open>string | undefined\<close>) is a
  \<open>string option\<close>; JavaScript treats both \<open>undefined\<close> and the empty string as
  false, which is what \<open>a || b\<close>, \<open>!a\<close> and \<open>Boolean(a)\<close> look at.
\<close>

definition truthy :: "string option \<Rightarrow> bool" where
  "truthy v = (case v of None \<Rightarrow> False | Some s \<Rightarrow> s \<noteq> [])"

definition js_or :: "string option \<Rightarrow> string option \<Rightarrow> string option" where
  "js_or a b = (if truthy a then a else b)"

definition or_false :: "bool option \<Rightarrow> bool" where
  "or_false b = (case b of None \<Rightarrow> False | Some v \<Rightarrow> v)"

definition or_empty :: "string option \<Rightarrow> string" where
  "or_empty v = (case v of None \<Rightarrow> [] | Some s \<Rightarrow> s)"

text \<open>\<open>xs.join(sep)\<close> on an array of strings.\<close>

fun js_join :: "string \<Rightarrow> string list \<Rightarrow> string" where
  "js_join sep [] = []"
| "js_join sep [x] = x"
| "js_join sep (x # y # ys) = x @ sep @ js_join sep (y # ys)"

text \<open>\<open>s.startsWith(p)\<close> and \<open>s.endsWith(p)\<close>.\<close>

definition startsWith :: "string \<Rightarrow> string \<Rightarrow> bool" where
  "startsWith s p = (take (length p) s = p)"

definition endsWith :: "string \<Rightarrow> string \<Rightarrow> bool" where
  "endsWith s p = (length p \<le> length s \<and> drop (length s - length p) s = p)"

text \<open>
  \<open>s.replace(pat, rep)\<close> with a string pattern: the first occurrence only. The source
  calls it with the replacement \<open>""\<close>, so no replacement pattern is involved.
\<close>

fun replace_first :: "string \<Rightarrow> string \<Rightarrow> string \<Rightarrow> string" where
  "replace_first pat rep [] = (if pat = [] then rep else [])"
| "replace_first pat rep (c # cs) =
     (if take (length pat) (c # cs) = pat then rep @ drop (length pat) (c # cs)
      else c # replace_first pat rep cs)"

text \<open>\<open>p.replace(process.cwd(), "").slice(1)\<close>, the source's way to a relative path.\<close>

definition strip_cwd :: "string \<Rightarrow> string \<Rightarrow> string" where
  "strip_cwd cwd p = drop 1 (replace_first cwd [] p)"

text \<open>
  \<open>p.replace(/\.tsx?$/, ".zod.ts")\<close>: the regular expression matches a final
  \<open>.tsx\<close> or a final \<open>.ts\<close> and nothing else; without a match the string is
  returned as it is.
\<close>

definition replace_ts_ext :: "string \<Rightarrow> string" where
  "replace_ts_ext p =
     (if endsWith p ''.tsx'' then take (length p - 4) p @ ''.zod.ts''
      else if endsWith p ''.ts'' then take (length p - 3) p @ ''.zod.ts''
      else p)"

text \<open>Decimal rendering of an integer, as a template literal prints it.\<close>

function show_nat :: "nat \<Rightarrow> string" where
  "show_nat n =
     (if n < 10 then [char_of (48 + n)]
      else show_nat (n div 10) @ [char_of (48 + n mod 10)])"
  by pat_completeness auto
termination
  by (relation "measure (\<lambda>n. n)") auto

definition show_int :: "int \<Rightarrow> string" where
  "show_int i = (if i < 0 then ''-'' @ show_nat (nat (- i)) else show_nat (nat i))"

text \<open>lodash \<open>uniq\<close>: the first occurrence of every element, in order.\<close>

fun uniq_from :: "'a list \<Rightarrow> 'a list \<Rightarrow> 'a list" where
  "uniq_from seen [] = []"
| "uniq_from seen (x # xs) =
     (if x \<in> set seen then uniq_from seen xs else x # uniq_from (x # seen) xs)"

definition uniq :: "'a list \<Rightarrow> 'a list" where
  "uniq xs = uniq_from [] xs"

text \<open>A JavaScript \<open>Set\<close> keeps insertion order; \<open>add\<close> of a member changes nothing.\<close>

definition set_add :: "'a \<Rightarrow> 'a list \<Rightarrow> 'a list" where
  "set_add x xs = (if x \<in> set xs then xs else xs @ [x])"

definition dquote :: string where
  "dquote = [CHR 0x22]"

definition newline :: string where
  "newline = [CHR 0x0A]"

text \<open>The emoji of the messages, as their UTF-8 bytes.\<close>

definition party_popper :: string where
  "party_popper = [CHR 0xF0, CHR 0x9F, CHR 0x8E, CHR 0x89]"

definition construction_sign :: string where
  "construction_sign = [CHR 0xF0, CHR 0x9F, CHR 0x9A, CHR 0xA7]"

section \<open>Configuration, flags and the core generator's interface\<close>

text \<open>
  The filter and format types of \<open>../config\<close> are opaque here: the command line code
  only passes them on.
\<close>

typedecl NameFilter
typedecl JSDocTagFilter
typedecl CustomJSDocFormatTypes

record InputOutputMapping =
  io_input :: string
  io_output :: string
  io_getSchemaName :: "(string \<Rightarrow> string) option"

text \<open>
  \<open>Config\<close> (of \<open>../config\<close>): \<open>input\<close> and \<open>output\<close> are required, every other
  field is optional; \<open>cfg_name\<close> is the name an entry of a multi-config file carries.
\<close>

record Config =
  cfg_name :: "string option"
  cfg_input :: string
  cfg_output :: string
  cfg_nameFilter :: "NameFilter option"
  cfg_jsDocTagFilter :: "JSDocTagFilter option"
  cfg_getSchemaName :: "(string \<Rightarrow> string) option"
  cfg_keepComments :: "bool option"
  cfg_skipParseJSDoc :: "bool option"
  cfg_inferredTypes :: "string option"
  cfg_customJSDocFormatTypes :: "CustomJSDocFormatTypes option"

text \<open>The positional arguments \<open>{ input?: string; output?: string }\<close>.\<close>

record Args =
  arg_input :: "string option"
  arg_output :: "string option"

text \<open>
  The flags of \<open>createFlags\<close> that the generation reads. \<open>keepComments\<close> has no
  default and may be undefined; the others have one.
\<close>

record Flags =
  keepComments :: "bool option"
  skipParseJSDoc :: bool
  skipValidation :: bool
  inferredTypes :: "string option"
  all_configs :: bool
  maxDepth :: int

record GenerateProps =
  sourceText :: string
  inputOutputMappings :: "InputOutputMapping list"
  gp_nameFilter :: "NameFilter option"
  gp_jsDocTagFilter :: "JSDocTagFilter option"
  gp_getSchemaName :: "(string \<Rightarrow> string) option"
  gp_keepComments :: "bool option"
  gp_skipParseJSDoc :: "bool option"
  gp_inferredTypes :: "string option"
  gp_customJSDocFormatTypes :: "CustomJSDocFormatTypes option"

record CoreGenerationResult =
  errors :: "string list"
  transformedSourceText :: string
  getZodSchemasFile :: "string \<Rightarrow> string"
  getIntegrationTestFile :: "string \<Rightarrow> string \<Rightarrow> string"
  getInferredTypes :: "string \<Rightarrow> string"
  hasCircularDependencies :: bool

text \<open>A file handed to the type-checking worker: its text and its relative path.\<close>

record VirtualFile =
  vf_sourceText :: string
  vf_relativePath :: string

record ValidateGeneratedTypesProps =
  sourceTypes :: VirtualFile
  integrationTests :: VirtualFile
  zodSchemas :: VirtualFile
  v_skipParseJSDoc :: bool
  extraFiles :: "VirtualFile list"

text \<open>
  The top-level children of a parsed source file, as far as discovery looks at them: an
  import declaration with the text of its module specifier (\<open>None\<close> when the specifier
  is not a string literal), or any other node.
\<close>

datatype node = ImportDeclaration "string option" | OtherNode

section \<open>The environment: collaborators outside the repository's command line code\<close>

text \<open>
  Node's \<open>path\<close> functions, \<open>slash\<close>, the TypeScript parser and transpiler, prettier,
  the validation worker, the core generator and the helpers of \<open>../utils/getImportPath\<close>
  and \<open>./constants\<close> are parameters of the model. \<open>path_parse_dir\<close> and
  \<open>path_parse_ext\<close> are the \<open>dir\<close> and \<open>ext\<close> fields of \<open>parse(p)\<close>.
  \<open>fs_error_message\<close> is the message of the error \<open>readFile\<close> rejects with.
\<close>

record env =
  cwd :: string
  path_join :: "string \<Rightarrow> string \<Rightarrow> string"
  path_resolve :: "string \<Rightarrow> string \<Rightarrow> string"
  path_relative :: "string \<Rightarrow> string \<Rightarrow> string"
  path_dirname :: "string \<Rightarrow> string"
  path_extname :: "string \<Rightarrow> string"
  path_normalize :: "string \<Rightarrow> string"
  path_parse_dir :: "string \<Rightarrow> string"
  path_parse_ext :: "string \<Rightarrow> string"
  slash :: "string \<Rightarrow> string"
  TYPESCRIPT_EXTENSIONS :: "string list"
  JAVASCRIPT_EXTENSIONS :: "string list"
  getImportPath :: "string \<Rightarrow> string \<Rightarrow> string"
  areImportPathsEqualIgnoringExtension :: "string \<Rightarrow> string \<Rightarrow> bool"
  generateCoreFileContent :: "GenerateProps \<Rightarrow> CoreGenerationResult"
  validateGeneratedTypesInWorker :: "ValidateGeneratedTypesProps \<Rightarrow> string list"
  prettier_format :: "string \<Rightarrow> string"
  transpileModule :: "string \<Rightarrow> string"
  createSourceFile :: "string \<Rightarrow> string \<Rightarrow> node list"
  fs_error_message :: "string \<Rightarrow> string"

section \<open>The world: file system and observable events\<close>

text \<open>
  A path of the file system holds a readable file with its text, or something that exists
  and cannot be read as a file (a directory). \<open>existsSync\<close> is true of both,
  \<open>readFile\<close> succeeds on the first only.
\<close>

datatype fs_entry = File string | Directory

datatype spinner_op = SpinStart string | SpinWarn string | SpinFail | SpinSucceed

text \<open>
  Everything the command does to the outside, in order: the command's \<open>log\<close>,
  \<open>warn\<close>, \<open>debug\<close> and \<open>error\<close> (with \<open>exit: false\<close>, which returns, or without,
  which throws), the spinner, each \<open>readFile\<close> with its success, each call of the
  validation worker and each \<open>outputFile\<close>. Two more events mark points of the nested
  generation by the id of the config at hand: \<open>GenerateCalled\<close> the call of
  \<open>this.generate\<close> in the batch callback (line 386), \<open>GeneratedAdded\<close> the
  \<open>generatedConfigIds.add\<close> after its success (line 397).
\<close>

datatype event =
    Log string
  | Warn string
  | Debug string
  | ErrorNoExit string
  | ErrorExit string
  | Spinner spinner_op
  | ReadFile string bool
  | Validate ValidateGeneratedTypesProps
  | WriteFile string string
  | GenerateCalled string
  | GeneratedAdded string

record world =
  fs :: "string \<rightharpoonup> fs_entry"
  trace :: "event list"

definition emit :: "event \<Rightarrow> world \<Rightarrow> world" where
  "emit e w = w\<lparr>trace := trace w @ [e]\<rparr>"

definition existsSync :: "world \<Rightarrow> string \<Rightarrow> bool" where
  "existsSync w p = (fs w p \<noteq> None)"

definition readFile :: "string \<Rightarrow> world \<Rightarrow> string option \<times> world" where
  "readFile p w =
     (case fs w p of
        Some (File t) \<Rightarrow> (Some t, emit (ReadFile p True) w)
      | _ \<Rightarrow> (None, emit (ReadFile p False) w))"

text \<open>
  A step of the generation returns \<open>{ success: true, data }\<close> or
  \<open>{ success: false, error }\<close>; an async function resolves with its value or rejects
  with an error message.
\<close>

datatype 'a step_result = Success 'a | Failure string

datatype 'a promise = Resolved 'a | Rejected string

section \<open>The generation steps (\<open>cli/generate-steps.ts\<close>, \<open>cli/utils.ts\<close>)\<close>

text \<open>
  Paths are keys of the file system as the code passes them: it hands over absolute
  paths (results of \<open>join(process.cwd(), _)\<close> and \<open>resolve\<close>) everywhere but for
  the \<open>inferredTypes\<close> path.
\<close>

definition hasExtensions :: "env \<Rightarrow> string \<Rightarrow> string list \<Rightarrow> bool" where
  "hasExtensions E p extensions = (path_parse_ext E p \<in> set extensions)"

record PreparedData =
  inputPath :: string
  outputPath :: string
  generateOptions :: GenerateProps

definition missing_input_error :: string where
  "missing_input_error =
     ''Missing 1 required arg:'' @ newline @ ''input file (typescript)'' @ newline @
     ''See more help with --help''"

definition ext_error_line :: "string \<times> string list \<Rightarrow> string" where
  "ext_error_line pe =
     dquote @ fst pe @ dquote @ '' must be '' @
     js_join '', '' (map (\<lambda>i. dquote @ i @ dquote) (snd pe))"

definition extension_error :: "(string \<times> string list) list \<Rightarrow> string" where
  "extension_error extErrors =
     ''Unexpected file extension:'' @ newline @ js_join newline (map ext_error_line extErrors)"

text \<open>\<open>{ sourceText, inputOutputMappings, ...fileConfig }\<close> and the three flag overrides.\<close>

definition build_generateOptions ::
  "string \<Rightarrow> InputOutputMapping list \<Rightarrow> Config option \<Rightarrow> Flags \<Rightarrow> GenerateProps" where
  "build_generateOptions text relativeIoMappings fileConfig cliFlags =
     \<lparr> sourceText = text,
       inputOutputMappings = relativeIoMappings,
       gp_nameFilter = Option.bind fileConfig cfg_nameFilter,
       gp_jsDocTagFilter = Option.bind fileConfig cfg_jsDocTagFilter,
       gp_getSchemaName = Option.bind fileConfig cfg_getSchemaName,
       gp_keepComments =
         (case keepComments cliFlags of
            Some b \<Rightarrow> Some b
          | None \<Rightarrow> Option.bind fileConfig cfg_keepComments),
       gp_skipParseJSDoc = Some (skipParseJSDoc cliFlags),
       gp_inferredTypes =
         (case inferredTypes cliFlags of
            Some s \<Rightarrow> Some s
          | None \<Rightarrow> Option.bind fileConfig cfg_inferredTypes),
       gp_customJSDocFormatTypes = Option.bind fileConfig cfg_customJSDocFormatTypes \<rparr>"

definition prepareGeneratorConfig ::
  "env \<Rightarrow> Args \<Rightarrow> Config option \<Rightarrow> Flags \<Rightarrow> InputOutputMapping list \<Rightarrow> world
     \<Rightarrow> PreparedData step_result promise \<times> world" where
  "prepareGeneratorConfig E args fileConfig cliFlags globalIoMappings w =
     (let input = js_or (arg_input args) (map_option cfg_input fileConfig);
          output = js_or (arg_output args) (map_option cfg_output fileConfig)
      in if \<not> truthy input then (Resolved (Failure missing_input_error), w)
         else
           let inp = or_empty input;
               inPath = path_join E (cwd E) inp;
               outPath = path_join E (cwd E) (if truthy output then or_empty output else inp);
               tsjs = TYPESCRIPT_EXTENSIONS E @ JAVASCRIPT_EXTENSIONS E;
               extErrors =
                 (if \<not> hasExtensions E inp (TYPESCRIPT_EXTENSIONS E)
                  then [(inp, TYPESCRIPT_EXTENSIONS E)] else []) @
                 (if truthy output \<and> \<not> hasExtensions E (or_empty output) tsjs
                  then [(or_empty output, tsjs)] else [])
           in if extErrors \<noteq> [] then (Resolved (Failure (extension_error extErrors)), w)
              else
                (case readFile inPath w of
                   (None, w') \<Rightarrow> (Rejected (fs_error_message E inPath), w')
                 | (Some text, w') \<Rightarrow>
                     (Resolved (Success
                        \<lparr> inputPath = inPath,
                          outputPath = outPath,
                          generateOptions =
                            build_generateOptions text
                              (map (\<lambda>io. \<lparr> io_input = getImportPath E inPath (io_input io),
                                           io_output = getImportPath E outPath (io_output io),
                                           io_getSchemaName = io_getSchemaName io \<rparr>)
                                 globalIoMappings)
                              fileConfig cliFlags \<rparr>), w')))"

definition circular_error :: string where
  "circular_error =
     ''--output= must also be provided when input files have some circular dependencies''"

definition executeCoreGeneration ::
  "env \<Rightarrow> GenerateProps \<Rightarrow> bool \<Rightarrow> CoreGenerationResult step_result" where
  "executeCoreGeneration E opts outputProvided =
     (let coreResult = generateCoreFileContent E opts
      in if hasCircularDependencies coreResult \<and> \<not> outputProvided
         then Failure circular_error
         else Success coreResult)"

text \<open>One round of the loop over the mappings that loads the extra files.\<close>

definition load_extra_files ::
  "env \<Rightarrow> string \<Rightarrow> InputOutputMapping \<Rightarrow> VirtualFile list \<times> world
     \<Rightarrow> VirtualFile list \<times> world" where
  "load_extra_files E inPath io acc =
     (if getImportPath E inPath (io_input io) \<noteq> ''/'' then
        (let (r1, w1) = readFile (path_join E (cwd E) (io_input io)) (snd acc);
             a1 = (case r1 of
                     Some t \<Rightarrow>
                       (fst acc @ [\<lparr> vf_sourceText = t, vf_relativePath = io_input io \<rparr>], w1)
                   | None \<Rightarrow>
                       (fst acc,
                        emit (Spinner (SpinWarn
                          (''File '' @ dquote @ io_input io @ dquote @ '' not found''))) w1));
             (r2, w2) = readFile (path_join E (cwd E) (io_output io)) (snd a1)
         in (case r2 of
               Some t \<Rightarrow>
                 (fst a1 @ [\<lparr> vf_sourceText = t, vf_relativePath = io_output io \<rparr>], w2)
             | None \<Rightarrow>
                 (fst a1,
                  emit (Spinner (SpinWarn
                    (''File '' @ dquote @ io_output io @ dquote @
                     '' not found: maybe it hasn't been generated yet?''))) w2)))
      else acc)"

text \<open>Lines 191 to 204: the output path the validation works with.\<close>

definition outputForValidation :: "env \<Rightarrow> string \<Rightarrow> string \<Rightarrow> string" where
  "outputForValidation E inPath outPath =
     (if outPath = inPath \<or>
         areImportPathsEqualIgnoringExtension E
           (strip_cwd (cwd E) inPath) (strip_cwd (cwd E) outPath)
      then path_join E (path_parse_dir E (path_normalize E inPath)) ''source.zod.ts''
      else outPath)"

text \<open>The argument of \<open>worker.validateGeneratedTypesInWorker\<close>.\<close>

definition validation_request ::
  "env \<Rightarrow> string \<Rightarrow> string \<Rightarrow> CoreGenerationResult \<Rightarrow> GenerateProps \<Rightarrow> VirtualFile list
     \<Rightarrow> ValidateGeneratedTypesProps" where
  "validation_request E inPath outPath core opts extra =
     (let ofv = outputForValidation E inPath outPath;
          input = strip_cwd (cwd E) inPath
      in \<lparr> sourceTypes =
             \<lparr> vf_sourceText = transformedSourceText core, vf_relativePath = input \<rparr>,
           integrationTests =
             \<lparr> vf_sourceText =
                 getIntegrationTestFile core
                   (getImportPath E ''./source.integration.ts'' input)
                   (getImportPath E ''./source.integration.ts'' ofv),
               vf_relativePath = ''./source.integration.ts'' \<rparr>,
           zodSchemas =
             \<lparr> vf_sourceText = getZodSchemasFile core (getImportPath E ofv input),
               vf_relativePath = strip_cwd (cwd E) ofv \<rparr>,
           v_skipParseJSDoc = or_false (gp_skipParseJSDoc opts),
           extraFiles = extra \<rparr>)"

definition validateGeneratedContent ::
  "env \<Rightarrow> Flags \<Rightarrow> string \<Rightarrow> string \<Rightarrow> CoreGenerationResult \<Rightarrow> GenerateProps
     \<Rightarrow> InputOutputMapping list \<Rightarrow> world \<Rightarrow> unit step_result \<times> world" where
  "validateGeneratedContent E cliFlags inPath outPath core opts globalIoMappings w =
     (let w0 = emit (Spinner (SpinStart ''Validating generated types'')) w;
          (extra, w1) = fold (load_extra_files E inPath) globalIoMappings ([], w0);
          req = validation_request E inPath outPath core opts extra;
          w2 = emit (Validate req) w1;
          validationErrors = validateGeneratedTypesInWorker E req
      in if validationErrors \<noteq> []
         then (Failure (js_join newline validationErrors), emit (Spinner SpinFail) w2)
         else (Success (), emit (Spinner SpinSucceed) w2))"

definition outputFile :: "string \<Rightarrow> string \<Rightarrow> world \<Rightarrow> world" where
  "outputFile p t w = (emit (WriteFile p t) w)\<lparr>fs := (fs w)(p \<mapsto> File t)\<rparr>"

text \<open>What \<open>writeOutputFiles\<close> writes at the output path.\<close>

definition rendered_schemas ::
  "env \<Rightarrow> string \<Rightarrow> string \<Rightarrow> CoreGenerationResult \<Rightarrow> string" where
  "rendered_schemas E outPath inPath core =
     (let zodSchemasFile = getZodSchemasFile core (getImportPath E outPath inPath)
      in if hasExtensions E (strip_cwd (cwd E) outPath) (JAVASCRIPT_EXTENSIONS E)
         then prettier_format E (transpileModule E zodSchemasFile)
         else prettier_format E zodSchemasFile)"

definition writeOutputFiles ::
  "env \<Rightarrow> string \<Rightarrow> string \<Rightarrow> CoreGenerationResult \<Rightarrow> GenerateProps \<Rightarrow> world \<Rightarrow> world" where
  "writeOutputFiles E outPath inPath core opts w =
     (let w1 =
            (if truthy (gp_inferredTypes opts) then
               (let it = or_empty (gp_inferredTypes opts);
                    zodInferredTypesFile = getInferredTypes core (getImportPath E it outPath)
                in outputFile it
                     (prettier_format E
                        (if hasExtensions E it (JAVASCRIPT_EXTENSIONS E)
                         then transpileModule E zodInferredTypesFile
                         else zodInferredTypesFile)) w)
             else w)
      in outputFile outPath (rendered_schemas E outPath inPath core) w1)"

section \<open>\<open>TsToZod.generate\<close>\<close>

definition generate ::
  "env \<Rightarrow> Args \<Rightarrow> Config option \<Rightarrow> Flags \<Rightarrow> InputOutputMapping list \<Rightarrow> world
     \<Rightarrow> unit step_result promise \<times> world" where
  "generate E args fileConfig cliFlags ioMappings w =
     (case prepareGeneratorConfig E args fileConfig cliFlags ioMappings w of
        (Rejected e, w1) \<Rightarrow> (Rejected e, w1)
      | (Resolved (Failure e), w1) \<Rightarrow> (Resolved (Failure e), w1)
      | (Resolved (Success d), w1) \<Rightarrow>
          (let outputProvided =
                 truthy (js_or (arg_output args) (map_option cfg_output fileConfig))
           in case executeCoreGeneration E (generateOptions d) outputProvided of
                Failure e \<Rightarrow> (Resolved (Failure e), w1)
              | Success core \<Rightarrow>
                  (let w2 = fold (\<lambda>e. emit (Warn e)) (errors core) w1
                   in if \<not> skipValidation cliFlags then
                        (case validateGeneratedContent E cliFlags (inputPath d) (outputPath d)
                                core (generateOptions d) ioMappings w2 of
                           (Failure e, w3) \<Rightarrow> (Resolved (Failure e), w3)
                         | (Success u, w3) \<Rightarrow>
                             (Resolved (Success ()),
                              writeOutputFiles E (outputPath d) (inputPath d) core
                                (generateOptions d) w3))
                      else
                        (Resolved (Success ()),
                         writeOutputFiles E (outputPath d) (inputPath d) core
                           (generateOptions d) w2))))"

section \<open>Nested file discovery (\<open>TsToZod.performFileDiscovery\<close>)\<close>

text \<open>
  \<open>discoveredFileInfos\<close> is a JavaScript \<open>Map\<close> from absolute paths to the relative
  path and the set of local imports of a file: a list of pairs in insertion order, where
  \<open>set\<close> on a present key keeps its place (\<open>AList.update\<close>). The set of imports is a
  list in insertion order too.
\<close>

record FileInfo =
  relativePath :: string
  localImportAbsPaths :: "string list"

type_synonym discovered = "(string \<times> FileInfo) list"

definition map_has :: "('k \<times> 'v) list \<Rightarrow> 'k \<Rightarrow> bool" where
  "map_has m k = (map_of m k \<noteq> None)"

text \<open>Lines 503 to 516: the resolved path of a relative import, with \<open>.ts\<close> or
  \<open>.tsx\<close> appended when it has no extension and such a file exists.\<close>

definition resolve_import :: "env \<Rightarrow> world \<Rightarrow> string \<Rightarrow> string \<Rightarrow> string" where
  "resolve_import E w absoluteFilePath importPath =
     (let r = path_resolve E (path_dirname E absoluteFilePath) importPath
      in if path_extname E r = [] then
           (if existsSync w (r @ ''.ts'') then r @ ''.ts''
            else if existsSync w (r @ ''.tsx'') then r @ ''.tsx''
            else r)
         else r)"

definition skip_message :: "string \<Rightarrow> string \<Rightarrow> string \<Rightarrow> string" where
  "skip_message importPath relativeFilePath resolved =
     ''Local import '' @ dquote @ importPath @ dquote @ '' from '' @ dquote @ relativeFilePath @
     dquote @ '' not found or not a TS/TSX file at '' @ dquote @ resolved @ dquote @
     ''. Skipping for discovery.''"

text \<open>
  The callback of \<open>ts.forEachChild\<close> on one top-level node. Its state is the map, the
  array \<open>localImportsToExploreRecursively\<close> and the world.
\<close>

definition visit_node ::
  "env \<Rightarrow> string \<Rightarrow> string \<Rightarrow> node \<Rightarrow> discovered \<times> string list \<times> world
     \<Rightarrow> discovered \<times> string list \<times> world" where
  "visit_node E absoluteFilePath relativeFilePath nd st =
     (case st of (disc, queue, w) \<Rightarrow>
        (case nd of
           ImportDeclaration (Some importPath) \<Rightarrow>
             if startsWith importPath ''./'' \<or> startsWith importPath ''../'' then
               (let r = resolve_import E w absoluteFilePath importPath
                in if existsSync w r \<and> (endsWith r ''.ts'' \<or> endsWith r ''.tsx'') then
                     (AList.map_entry absoluteFilePath
                        (\<lambda>info. info\<lparr>localImportAbsPaths :=
                                   set_add r (localImportAbsPaths info)\<rparr>) disc,
                      if \<not> map_has disc r then queue @ [r] else queue,
                      w)
                   else (disc, queue, emit (Debug (skip_message importPath relativeFilePath r)) w))
             else st
         | _ \<Rightarrow> st))"

definition max_depth_message :: "int \<Rightarrow> string \<Rightarrow> string" where
  "max_depth_message maxD rel =
     ''Maximum depth of '' @ show_int maxD @ '' reached for '' @ rel @
     ''. Stopping further discovery on this path.''"

definition relative_to_cwd :: "env \<Rightarrow> string \<Rightarrow> string" where
  "relative_to_cwd E p = slash E (path_relative E (cwd E) p)"

function performFileDiscovery ::
  "env \<Rightarrow> string \<Rightarrow> int \<Rightarrow> int \<Rightarrow> discovered \<times> world \<Rightarrow> discovered \<times> world" where
  "performFileDiscovery E absoluteFilePath maxD currentDepth st =
     (if currentDepth > maxD then
        (fst st, emit (Warn (max_depth_message maxD (relative_to_cwd E absoluteFilePath))) (snd st))
      else if map_has (fst st) absoluteFilePath then
        (fst st,
         emit (Debug (''Skipping already processed file for discovery: '' @ absoluteFilePath))
           (snd st))
      else
        (let relativeFilePath = relative_to_cwd E absoluteFilePath;
             w1 = emit (Log (''Discovering imports in: '' @ relativeFilePath @ '' (depth: '' @
                             show_int currentDepth @ '')'')) (snd st);
             rd = readFile absoluteFilePath w1
         in case fst rd of
              None \<Rightarrow>
                (fst st,
                 emit (Warn (''Could not read file '' @ relativeFilePath @
                             '' during discovery. Skipping. Error: '' @
                             fs_error_message E absoluteFilePath)) (snd rd))
            | Some text \<Rightarrow>
                (let disc1 = AList.update absoluteFilePath
                               \<lparr> relativePath = relativeFilePath, localImportAbsPaths = [] \<rparr>
                               (fst st);
                     scanned = fold (visit_node E absoluteFilePath relativeFilePath)
                                 (createSourceFile E absoluteFilePath text) (disc1, [], snd rd)
                 in fold (\<lambda>importPath. performFileDiscovery E importPath maxD (currentDepth + 1))
                      (uniq (fst (snd scanned))) (fst scanned, snd (snd scanned)))))"
  by pat_completeness auto
termination
  by (relation "measure (\<lambda>(E, p, maxD, d, st). nat (maxD + 1 - d))") auto

declare performFileDiscovery.simps [simp del]

section \<open>Nested generation (\<open>TsToZod.runNestedGeneration\<close>)\<close>

record DiscoveredConfigForNestedGeneration =
  dc_id :: string
  dc_config :: Config
  dependencies :: "string list"

text \<open>Lines 316 to 322: the imports that are keys of the map, as a set.\<close>

definition resolved_dependencies :: "discovered \<Rightarrow> FileInfo \<Rightarrow> string list" where
  "resolved_dependencies disc info =
     fold (\<lambda>importedAbsPath deps.
             if map_has disc importedAbsPath then set_add importedAbsPath deps else deps)
       (localImportAbsPaths info) []"

text \<open>Lines 323 to 333: the entry of \<open>configsForGeneration\<close> for one discovered file.\<close>

definition nested_config :: "Flags \<Rightarrow> discovered \<Rightarrow> string \<times> FileInfo
    \<Rightarrow> DiscoveredConfigForNestedGeneration" where
  "nested_config cliFlags disc entry =
     \<lparr> dc_id = fst entry,
       dc_config =
         \<lparr> cfg_name = None,
           cfg_input = relativePath (snd entry),
           cfg_output = replace_ts_ext (relativePath (snd entry)),
           cfg_nameFilter = None,
           cfg_jsDocTagFilter = None,
           cfg_getSchemaName = None,
           cfg_keepComments = Some (or_false (keepComments cliFlags)),
           cfg_skipParseJSDoc = Some (skipParseJSDoc cliFlags),
           cfg_inferredTypes = None,
           cfg_customJSDocFormatTypes = None \<rparr>,
       dependencies = resolved_dependencies disc (snd entry) \<rparr>"

text \<open>The map \<open>configsForGeneration\<close> and the array of its values.\<close>

definition configsForGeneration ::
  "Flags \<Rightarrow> discovered \<Rightarrow> (string \<times> DiscoveredConfigForNestedGeneration) list" where
  "configsForGeneration cliFlags disc =
     fold (\<lambda>entry m. AList.update (fst entry) (nested_config cliFlags disc entry) m) disc []"

definition allConfigsToGenerate ::
  "Flags \<Rightarrow> discovered \<Rightarrow> DiscoveredConfigForNestedGeneration list" where
  "allConfigsToGenerate cliFlags disc = map snd (configsForGeneration cliFlags disc)"

definition buildGlobalIoMappings :: "Config list \<Rightarrow> InputOutputMapping list" where
  "buildGlobalIoMappings configs =
     map (\<lambda>c. \<lparr> io_input = cfg_input c, io_output = cfg_output c,
                io_getSchemaName = cfg_getSchemaName c \<rparr>) configs"

text \<open>Lines 358 to 362.\<close>

definition batchToGenerate ::
  "DiscoveredConfigForNestedGeneration list \<Rightarrow> string list
     \<Rightarrow> DiscoveredConfigForNestedGeneration list" where
  "batchToGenerate generationQueue generatedConfigIds =
     filter (\<lambda>item. list_all (\<lambda>depId. depId \<in> set generatedConfigIds) (dependencies item))
       generationQueue"

definition order_error :: "DiscoveredConfigForNestedGeneration list \<Rightarrow> string" where
  "order_error generationQueue =
     ''Could not determine generation order. Possible circular dependency or missing files among: ''
     @ js_join '', '' (map (\<lambda>item. cfg_input (dc_config item)) generationQueue)
     @ ''. Please check your imports.''"

text \<open>
  A batch is \<open>batchToGenerate.map(async ...)\<close> under \<open>Promise.all\<close>. \<open>map\<close> calls the
  callbacks one after the other, and each runs up to its first suspension, which lies
  inside \<open>this.generate\<close> (at the read of the input file): so first every item of the
  batch logs and calls \<open>this.generate\<close>, in the order of the array. The model then lets
  the generations finish in the order of the array, each at once; a generation that fails
  or rejects rejects the \<open>Promise.all\<close>, the command's \<open>error\<close> throws, and the
  generations behind it do not finish.
\<close>

definition start_item :: "DiscoveredConfigForNestedGeneration \<Rightarrow> world \<Rightarrow> world" where
  "start_item item w =
     emit (GenerateCalled (dc_id item))
       (emit (Log (''Generating for '' @ dquote @ cfg_input (dc_config item) @ dquote @
                   '' (output: '' @ cfg_output (dc_config item) @ '')'')) w)"

definition settle_item ::
  "env \<Rightarrow> Flags \<Rightarrow> InputOutputMapping list \<Rightarrow> DiscoveredConfigForNestedGeneration
     \<Rightarrow> string list \<Rightarrow> world \<Rightarrow> string option \<times> string list \<times> world" where
  "settle_item E cliFlags globalIoMappings item generatedConfigIds w =
     (case generate E \<lparr>arg_input = None, arg_output = None\<rparr> (Some (dc_config item))
             cliFlags globalIoMappings w of
        (Resolved (Success u), w') \<Rightarrow>
          (None, set_add (dc_id item) generatedConfigIds,
           emit (GeneratedAdded (dc_id item))
             (emit (Log (party_popper @ '' Zod schemas generated for '' @
                         cfg_output (dc_config item) @ ''!'')) w'))
      | (Resolved (Failure e), w') \<Rightarrow>
          (Some (''Error generating for '' @ cfg_input (dc_config item) @ '': '' @ e),
           generatedConfigIds, w')
      | (Rejected e, w') \<Rightarrow> (Some e, generatedConfigIds, w'))"

fun settle_batch ::
  "env \<Rightarrow> Flags \<Rightarrow> InputOutputMapping list \<Rightarrow> DiscoveredConfigForNestedGeneration list
     \<Rightarrow> string list \<Rightarrow> world \<Rightarrow> string option \<times> string list \<times> world" where
  "settle_batch E cliFlags ios [] generatedConfigIds w = (None, generatedConfigIds, w)"
| "settle_batch E cliFlags ios (item # items) generatedConfigIds w =
     (case settle_item E cliFlags ios item generatedConfigIds w of
        (Some e, g, w') \<Rightarrow> (Some e, g, w')
      | (None, g, w') \<Rightarrow> settle_batch E cliFlags ios items g w')"

definition run_batch ::
  "env \<Rightarrow> Flags \<Rightarrow> InputOutputMapping list \<Rightarrow> DiscoveredConfigForNestedGeneration list
     \<Rightarrow> string list \<Rightarrow> world \<Rightarrow> string option \<times> string list \<times> world" where
  "run_batch E cliFlags ios batch generatedConfigIds w =
     settle_batch E cliFlags ios batch generatedConfigIds (fold start_item batch w)"

text \<open>Lines 416 to 418: the queue without the items of the batch.\<close>

definition remove_batch ::
  "DiscoveredConfigForNestedGeneration list \<Rightarrow> DiscoveredConfigForNestedGeneration list
     \<Rightarrow> DiscoveredConfigForNestedGeneration list" where
  "remove_batch batch generationQueue =
     filter (\<lambda>item. find (\<lambda>b. dc_id b = dc_id item) batch = None) generationQueue"

lemma remove_batch_shorter:
  assumes "batchToGenerate queue generated \<noteq> []"
  shows "length (remove_batch (batchToGenerate queue generated) queue) < length queue"
proof -
  from assms obtain b where b: "b \<in> set (batchToGenerate queue generated)"
    by (cases "batchToGenerate queue generated") auto
  then have "b \<in> set queue"
    by (simp add: batchToGenerate_def)
  moreover from b have "find (\<lambda>x. dc_id x = dc_id b) (batchToGenerate queue generated) \<noteq> None"
    by (auto simp: find_None_iff)
  ultimately show ?thesis
    unfolding remove_batch_def by (intro length_filter_less [of b]) auto
qed

text \<open>
  The \<open>while\<close> loop of lines 357 to 423. It ends with \<open>None\<close> when the queue is empty,
  and with the message of the thrown error otherwise; the number is
  \<open>totalGeneratedCount\<close>.
\<close>

function generation_loop ::
  "env \<Rightarrow> Flags \<Rightarrow> InputOutputMapping list \<Rightarrow> DiscoveredConfigForNestedGeneration list
     \<Rightarrow> string list \<Rightarrow> nat \<Rightarrow> world \<Rightarrow> string option \<times> nat \<times> world" where
  "generation_loop E cliFlags ios generationQueue generatedConfigIds count w =
     (if generationQueue = [] then (None, count, w)
      else if batchToGenerate generationQueue generatedConfigIds = [] then
        (Some (order_error generationQueue), count,
         emit (ErrorExit (order_error generationQueue)) w)
      else
        (let batch = batchToGenerate generationQueue generatedConfigIds;
             w1 = emit (Log (''Generation batch: '' @
                             js_join '', '' (map (\<lambda>item. cfg_input (dc_config item)) batch))) w;
             r = run_batch E cliFlags ios batch generatedConfigIds w1
         in case fst r of
              Some e \<Rightarrow>
                (Some (''Error during batch generation: '' @ e), count,
                 emit (ErrorExit (''Error during batch generation: '' @ e)) (snd (snd r)))
            | None \<Rightarrow>
                generation_loop E cliFlags ios (remove_batch batch generationQueue) (fst (snd r))
                  (count + length batch)
                  (if remove_batch batch generationQueue \<noteq> []
                   then emit (Log []) (snd (snd r)) else snd (snd r))))"
  by pat_completeness auto
termination
  by (relation "measure (\<lambda>(E, cliFlags, ios, queue, generated, n, w). length queue)")
     (auto simp: remove_batch_shorter)

declare generation_loop.simps [simp del]

datatype run_result = Returned | Exited string

definition runNestedGeneration ::
  "env \<Rightarrow> string \<Rightarrow> Flags \<Rightarrow> world \<Rightarrow> run_result \<times> world" where
  "runNestedGeneration E initialInputFile cliFlags w =
     (let w1 = emit (Log (construction_sign @
                 '' --generateNested is EXPERIMENTAL and may not work as expected. Use with caution!''))
                 w;
          w2 = emit (Log (''Starting nested generation with input file: '' @ initialInputFile)) w1;
          initialAbsoluteInputFile = path_resolve E (cwd E) initialInputFile;
          found = performFileDiscovery E initialAbsoluteInputFile (maxDepth cliFlags) 0 ([], w2)
      in if fst found = [] then
           (Returned,
            emit (Log ''No processable files found (including initial input). Nothing to generate.'')
              (snd found))
         else
           (let configs = allConfigsToGenerate cliFlags (fst found)
            in if configs = [] then
                 (Returned,
                  emit (Log
                    ''No files to generate after processing discovered imports. Nothing to generate.'')
                    (snd found))
               else
                 (let globalIoMappings = buildGlobalIoMappings (map dc_config configs);
                      w3 = emit (Log (''Discovered '' @ show_nat (length configs) @
                              '' files for generation. Determining order and generating...''))
                             (snd found);
                      r = generation_loop E cliFlags globalIoMappings configs [] 0 w3
                  in case fst r of
                       Some msg \<Rightarrow> (Exited msg, snd (snd r))
                     | None \<Rightarrow>
                         (Returned,
                          emit (Log (newline @ ''Successfully generated schemas for '' @
                                     show_nat (fst (snd r)) @ '' files.'')) (snd (snd r))))))"

section \<open>All configs of a multi-config file (\<open>TsToZod.run\<close>, lines 145 to 173)\<close>


definition announce_config :: "Config \<Rightarrow> world \<Rightarrow> world" where
  "announce_config c w =
     emit (Log (''Generating '' @ dquote @
                (case cfg_name c of None \<Rightarrow> ''undefined'' | Some s \<Rightarrow> s) @ dquote)) w"

definition generated_message :: string where
  "generated_message = '' '' @ party_popper @ '' Zod schemas generated!''"




text \<open>
  Lines 175 to 180, for contrast: with a single config the failure goes to \<open>this.error\<close>
  without \<open>exit: false\<close>, which throws; a rejection of \<open>this.generate\<close> rejects the
  command.
\<close>

definition run_single_config ::
  "env \<Rightarrow> Args \<Rightarrow> Flags \<Rightarrow> InputOutputMapping list \<Rightarrow> Config option \<Rightarrow> world
     \<Rightarrow> run_result \<times> world" where
  "run_single_config E args cliFlags ioMappings fileConfig w =
     (case generate E args fileConfig cliFlags ioMappings w of
        (Rejected e, w') \<Rightarrow> (Exited e, w')
      | (Resolved (Success u), w') \<Rightarrow>
          (Returned, emit (Log (party_popper @ '' Zod schemas generated!'')) w')
      | (Resolved (Failure e), w') \<Rightarrow> (Exited e, emit (ErrorExit e) w'))"

section \<open>A small environment for the examples\<close>

text \<open>
  The examples run in the working directory \<open>/proj\<close> on plain paths (no \<open>.\<close>,
  \<open>..\<close> or empty segment but a leading \<open>./\<close> of an import), where the functions
  below give what Node's \<open>path\<close> gives. The stand-in for the TypeScript parser reads a
  toy syntax: declarations separated by \<open>;\<close>, an import written \<open>import <specifier>\<close>.
  The stand-in for the core generator reports a cross-file cycle for the texts it is given
  as \<open>circ\<close>, and the stand-in for the worker rejects the source texts given as \<open>bad\<close>.
\<close>

definition demo_basename :: "string \<Rightarrow> string" where
  "demo_basename p = rev (takeWhile (\<lambda>c. c \<noteq> CHR ''/'') (rev p))"

definition demo_dirname :: "string \<Rightarrow> string" where
  "demo_dirname p =
     (let d = rev (drop 1 (dropWhile (\<lambda>c. c \<noteq> CHR ''/'') (rev p)))
      in if d \<noteq> [] then d else if CHR ''/'' \<in> set p then ''/'' else ''.'')"

definition demo_extname :: "string \<Rightarrow> string" where
  "demo_extname p =
     (let b = demo_basename p
      in if CHR ''.'' \<in> set (drop 1 b)
         then CHR ''.'' # rev (takeWhile (\<lambda>c. c \<noteq> CHR ''.'') (rev b))
         else [])"

definition demo_stem :: "string \<Rightarrow> string" where
  "demo_stem p =
     (let b = demo_basename p in take (length b - length (demo_extname b)) b)"

definition demo_resolve :: "string \<Rightarrow> string \<Rightarrow> string" where
  "demo_resolve d p =
     (if startsWith p ''/'' then p
      else if startsWith p ''./'' then d @ ''/'' @ drop 2 p
      else d @ ''/'' @ p)"

definition demo_relative :: "string \<Rightarrow> string \<Rightarrow> string" where
  "demo_relative d p = (if startsWith p (d @ ''/'') then drop (length d + 1) p else p)"

fun split_on :: "char \<Rightarrow> string \<Rightarrow> string list" where
  "split_on c [] = [[]]"
| "split_on c (x # xs) =
     (if x = c then [] # split_on c xs
      else (case split_on c xs of [] \<Rightarrow> [[x]] | y # ys \<Rightarrow> (x # y) # ys))"

definition demo_parse :: "string \<Rightarrow> node list" where
  "demo_parse text =
     map (\<lambda>l. if startsWith l ''import '' then ImportDeclaration (Some (drop 7 l))
              else OtherNode)
       (split_on CHR '';'' text)"

definition demo_core :: "string list \<Rightarrow> GenerateProps \<Rightarrow> CoreGenerationResult" where
  "demo_core circ opts =
     \<lparr> errors = [],
       transformedSourceText = sourceText opts,
       getZodSchemasFile = (\<lambda>p. ''schemas importing '' @ p),
       getIntegrationTestFile = (\<lambda>a b. ''tests importing '' @ a @ '' and '' @ b),
       getInferredTypes = (\<lambda>p. ''types inferred from '' @ p),
       hasCircularDependencies = (sourceText opts \<in> set circ) \<rparr>"

definition demo_env :: "string list \<Rightarrow> string list \<Rightarrow> env" where
  "demo_env circ bad =
     \<lparr> cwd = ''/proj'',
       path_join = (\<lambda>a b. a @ ''/'' @ b),
       path_resolve = demo_resolve,
       path_relative = demo_relative,
       path_dirname = demo_dirname,
       path_extname = demo_extname,
       path_normalize = (\<lambda>p. p),
       path_parse_dir = demo_dirname,
       path_parse_ext = demo_extname,
       slash = (\<lambda>p. p),
       TYPESCRIPT_EXTENSIONS = [''.ts'', ''.tsx''],
       JAVASCRIPT_EXTENSIONS = [''.js'', ''.jsx''],
       getImportPath =
         (\<lambda>a b. if demo_basename a = demo_basename b then ''/'' else ''./'' @ demo_stem b),
       areImportPathsEqualIgnoringExtension = (\<lambda>a b. demo_stem a = demo_stem b),
       generateCoreFileContent = demo_core circ,
       validateGeneratedTypesInWorker =
         (\<lambda>req. if vf_sourceText (sourceTypes req) \<in> set bad
                then [''types of '' @ vf_relativePath (sourceTypes req) @ '' do not match'']
                else []),
       prettier_format = (\<lambda>t. t),
       transpileModule = (\<lambda>t. ''transpiled '' @ t),
       createSourceFile = (\<lambda>f t. demo_parse t),
       fs_error_message = (\<lambda>p. ''ENOENT: no such file or directory, open '' @ p) \<rparr>"

definition demo_flags :: Flags where
  "demo_flags =
     \<lparr> keepComments = None, skipParseJSDoc = False, skipValidation = False,
       inferredTypes = None, all_configs = False, maxDepth = 5 \<rparr>"

definition demo_world :: "(string \<times> string) list \<Rightarrow> world" where
  "demo_world files = \<lparr> fs = map_option File \<circ> map_of files, trace = [] \<rparr>"

text \<open>
  Two small projects. In the first, \<open>a.ts\<close> and \<open>b.ts\<close> import each other and
  \<open>a.ts\<close> imports \<open>c.ts\<close>. In the second, \<open>seed.ts\<close> imports \<open>a.ts\<close> and
  \<open>b.ts\<close>, both import \<open>shared.ts\<close>, and \<open>b.ts\<close> also imports the seed, a package
  and a file that does not exist.
\<close>

definition demo_cycle :: "(string \<times> string) list" where
  "demo_cycle =
     [(''/proj/a.ts'', ''import ./b;import ./c;type A = B''),
      (''/proj/b.ts'', ''import ./a;type B = A''),
      (''/proj/c.ts'', ''type C = string'')]"

definition demo_diamond :: "(string \<times> string) list" where
  "demo_diamond =
     [(''/proj/seed.ts'', ''import ./a;import ./b;type S = A''),
      (''/proj/a.ts'', ''import ./shared;type A = X''),
      (''/proj/b.ts'', ''import ./shared;import ./seed;import zod;import ./missing;type B = X''),
      (''/proj/shared.ts'', ''type X = string'')]"

text \<open>
  A third project, without a cycle: \<open>x.ts\<close> imports \<open>y.ts\<close> and \<open>z.ts\<close>, which both
  import \<open>base.ts\<close>. And the configs of a project's nested generation from a seed, with
  the default flags.
\<close>

definition demo_fan :: "(string \<times> string) list" where
  "demo_fan =
     [(''/proj/x.ts'', ''import ./y;import ./z;type X = Y''),
      (''/proj/y.ts'', ''import ./base;type Y = B''),
      (''/proj/z.ts'', ''import ./base;type Z = B''),
      (''/proj/base.ts'', ''type B = string'')]"

definition demo_configs ::
  "(string \<times> string) list \<Rightarrow> string \<Rightarrow> DiscoveredConfigForNestedGeneration list" where
  "demo_configs files seed =
     allConfigsToGenerate demo_flags
       (fst (performFileDiscovery (demo_env [] []) seed 5 0 ([], demo_world files)))"



section \<open>Observations on traces\<close>

text \<open>The requests the validation worker was called with, in order.\<close>

fun validate_calls :: "event list \<Rightarrow> ValidateGeneratedTypesProps list" where
  "validate_calls [] = []"
| "validate_calls (Validate r # es) = r # validate_calls es"
| "validate_calls (e # es) = validate_calls es"

text \<open>The writes of \<open>outputFile\<close>, in order, as pairs of path and text.\<close>

fun writes :: "event list \<Rightarrow> (string \<times> string) list" where
  "writes [] = []"
| "writes (WriteFile p t # es) = (p, t) # writes es"
| "writes (e # es) = writes es"

text \<open>The paths of the successful reads, in order.\<close>

fun reads_ok :: "event list \<Rightarrow> string list" where
  "reads_ok [] = []"
| "reads_ok (ReadFile p True # es) = p # reads_ok es"
| "reads_ok (e # es) = reads_ok es"

text \<open>The paths of all reads, failed ones too.\<close>

fun read_attempts :: "event list \<Rightarrow> string list" where
  "read_attempts [] = []"
| "read_attempts (ReadFile p ok # es) = p # read_attempts es"
| "read_attempts (e # es) = read_attempts es"

text \<open>
  The target that the discovery callback records for a node of the file
  \<open>absoluteFilePath\<close>, if it records one (the test of lines 497 to 523), and the targets
  of all nodes of a readable file.
\<close>

definition import_target :: "env \<Rightarrow> world \<Rightarrow> string \<Rightarrow> node \<Rightarrow> string option" where
  "import_target E w absoluteFilePath nd =
     (case nd of
        ImportDeclaration (Some importPath) \<Rightarrow>
          if (startsWith importPath ''./'' \<or> startsWith importPath ''../'')
             \<and> existsSync w (resolve_import E w absoluteFilePath importPath)
             \<and> (endsWith (resolve_import E w absoluteFilePath importPath) ''.ts''
                \<or> endsWith (resolve_import E w absoluteFilePath importPath) ''.tsx'')
          then Some (resolve_import E w absoluteFilePath importPath)
          else None
      | _ \<Rightarrow> None)"

definition local_imports :: "env \<Rightarrow> world \<Rightarrow> string \<Rightarrow> string list" where
  "local_imports E w absoluteFilePath =
     (case fs w absoluteFilePath of
        Some (File text) \<Rightarrow>
          List.map_filter (import_target E w absoluteFilePath)
            (createSourceFile E absoluteFilePath text)
      | _ \<Rightarrow> [])"

text \<open>
  The specification's words for a local import: the specifier \<open>s\<close> of an import of the
  file \<open>a\<close> begins with \<open>./\<close> or \<open>../\<close> and resolves to \<open>t\<close>, directly or by
  appending \<open>.ts\<close> or \<open>.tsx\<close> when it has no extension, where \<open>t\<close> exists and ends
  in \<open>.ts\<close> or \<open>.tsx\<close>.
\<close>

definition spec_local_import :: "env \<Rightarrow> world \<Rightarrow> string \<Rightarrow> string \<Rightarrow> string \<Rightarrow> bool" where
  "spec_local_import E w a s t =
     ((startsWith s ''./'' \<or> startsWith s ''../'')
      \<and> (t = path_resolve E (path_dirname E a) s
         \<or> (path_extname E (path_resolve E (path_dirname E a) s) = []
            \<and> (t = path_resolve E (path_dirname E a) s @ ''.ts''
               \<or> t = path_resolve E (path_dirname E a) s @ ''.tsx'')))
      \<and> existsSync w t
      \<and> (endsWith t ''.ts'' \<or> endsWith t ''.tsx''))"

text \<open>\<open>b\<close> is reachable from \<open>a\<close> along at most \<open>n\<close> local imports.\<close>

fun reachable_within :: "env \<Rightarrow> world \<Rightarrow> nat \<Rightarrow> string \<Rightarrow> string \<Rightarrow> bool" where
  "reachable_within E w 0 a b = (a = b)"
| "reachable_within E w (Suc n) a b =
     (a = b \<or> list_ex (\<lambda>c. reachable_within E w n c b) (local_imports E w a))"

text \<open>
  What a discovery call may do to its state: the file system stays, the keys of the map
  grow at the end by the files read successfully in the call (in that order), the entries
  that were there stay as they are, and distinct keys stay distinct.
\<close>

definition discovery_extends :: "discovered \<times> world \<Rightarrow> discovered \<times> world \<Rightarrow> bool" where
  "discovery_extends st st' =
     (fs (snd st') = fs (snd st)
      \<and> (\<exists>ks. map fst (fst st') = map fst (fst st) @ ks
              \<and> reads_ok (trace (snd st')) = reads_ok (trace (snd st)) @ ks)
      \<and> (\<forall>k. map_has (fst st) k \<longrightarrow> map_of (fst st') k = map_of (fst st) k)
      \<and> (distinct (map fst (fst st)) \<longrightarrow> distinct (map fst (fst st'))))"

text \<open>What the scan of a file's nodes leaves as it is.\<close>

definition scan_ok ::
  "string \<Rightarrow> discovered \<times> string list \<times> world
     \<Rightarrow> discovered \<times> string list \<times> world \<Rightarrow> bool" where
  "scan_ok a st st' =
     (map fst (fst st') = map fst (fst st)
      \<and> fs (snd (snd st')) = fs (snd (snd st))
      \<and> reads_ok (trace (snd (snd st'))) = reads_ok (trace (snd (snd st)))
      \<and> (\<forall>k. k \<noteq> a \<longrightarrow> map_of (fst st') k = map_of (fst st) k))"

text \<open>
  The state after lines 465 to 540 for a file that was read at depth \<open>d\<close>: the map with
  the file's entry and its imports, the imports to explore, the world.
\<close>

definition scan_file ::
  "env \<Rightarrow> string \<Rightarrow> int \<Rightarrow> string \<Rightarrow> discovered \<times> world
     \<Rightarrow> discovered \<times> string list \<times> world" where
  "scan_file E a d content st =
     fold (visit_node E a (relative_to_cwd E a)) (createSourceFile E a content)
       (AList.update a \<lparr> relativePath = relative_to_cwd E a, localImportAbsPaths = [] \<rparr> (fst st),
        [],
        emit (ReadFile a True)
          (emit (Log (''Discovering imports in: '' @ relative_to_cwd E a @ '' (depth: '' @
                      show_int d @ '')'')) (snd st)))"

text \<open>
  Scanning a trace of the nested generation. \<open>deps_ok D added es\<close>: whenever
  \<open>this.generate\<close> is called for the config with id \<open>f\<close>, every id of \<open>D f\<close> has
  been added to \<open>generatedConfigIds\<close> before (or is in \<open>added\<close>, the ids added before
  the trace begins).
\<close>

fun deps_ok :: "(string \<Rightarrow> string list) \<Rightarrow> string list \<Rightarrow> event list \<Rightarrow> bool" where
  "deps_ok D added [] = True"
| "deps_ok D added (GenerateCalled f # es) =
     (list_all (\<lambda>dep. dep \<in> set added) (D f) \<and> deps_ok D added es)"
| "deps_ok D added (GeneratedAdded g # es) = deps_ok D (g # added) es"
| "deps_ok D added (e # es) = deps_ok D added es"

text \<open>The ids added to \<open>generatedConfigIds\<close> in a trace, latest first.\<close>

fun added_ids :: "event list \<Rightarrow> string list" where
  "added_ids [] = []"
| "added_ids (GeneratedAdded g # es) = added_ids es @ [g]"
| "added_ids (e # es) = added_ids es"

text \<open>
  The generations called and not yet added after a trace, from those \<open>pending\<close> before
  it; and \<open>batches_wait pending es\<close>: at every log line that announces a batch, no
  generation is pending.
\<close>

definition is_batch_log :: "string \<Rightarrow> bool" where
  "is_batch_log s = startsWith s ''Generation batch: ''"

fun pending_after :: "string list \<Rightarrow> event list \<Rightarrow> string list" where
  "pending_after pending [] = pending"
| "pending_after pending (GenerateCalled f # es) = pending_after (f # pending) es"
| "pending_after pending (GeneratedAdded g # es) = pending_after (removeAll g pending) es"
| "pending_after pending (e # es) = pending_after pending es"

fun batches_wait :: "string list \<Rightarrow> event list \<Rightarrow> bool" where
  "batches_wait pending [] = True"
| "batches_wait pending (GenerateCalled f # es) = batches_wait (f # pending) es"
| "batches_wait pending (GeneratedAdded g # es) = batches_wait (removeAll g pending) es"
| "batches_wait pending (Log s # es) =
     ((if is_batch_log s then pending = [] else True) \<and> batches_wait pending es)"
| "batches_wait pending (e # es) = batches_wait pending es"

text \<open>
  The events of a single generation: warnings, the spinner, reads, the worker's call and
  writes. It logs nothing, reports no error and sets no mark of the nested generation.
\<close>

fun quiet :: "event \<Rightarrow> bool" where
  "quiet (Warn s) = True"
| "quiet (Spinner s) = True"
| "quiet (ReadFile p ok) = True"
| "quiet (Validate r) = True"
| "quiet (WriteFile p t) = True"
| "quiet e = False"

text \<open>The events of \<open>start_item\<close>, and the dependencies of the config with a given id.\<close>

definition start_events :: "DiscoveredConfigForNestedGeneration \<Rightarrow> event list" where
  "start_events item =
     [Log (''Generating for '' @ dquote @ cfg_input (dc_config item) @ dquote @
           '' (output: '' @ cfg_output (dc_config item) @ '')''),
      GenerateCalled (dc_id item)]"


text \<open>
  What a single generation may do to the world: it adds quiet events to the trace, and it
  removes no path from the file system and leaves readable files readable.
\<close>

definition quiet_ext :: "world \<Rightarrow> world \<Rightarrow> bool" where
  "quiet_ext w w' =
     ((\<exists>tr. trace w' = trace w @ tr \<and> list_all quiet tr)
      \<and> (\<forall>p. fs w p \<noteq> None \<longrightarrow> fs w' p \<noteq> None)
      \<and> (\<forall>p. (\<exists>t. fs w p = Some (File t)) \<longrightarrow> (\<exists>t. fs w' p = Some (File t))))"

text \<open>The log line that announces a batch.\<close>

definition batch_log :: "DiscoveredConfigForNestedGeneration list \<Rightarrow> event" where
  "batch_log batch =
     Log (''Generation batch: '' @ js_join '', '' (map (\<lambda>item. cfg_input (dc_config item)) batch))"

text \<open>No path of the file system is lost from one world to the other.\<close>

definition keeps_files :: "world \<Rightarrow> world \<Rightarrow> bool" where
  "keeps_files w w' = (\<forall>p. fs w p \<noteq> None \<longrightarrow> fs w' p \<noteq> None)"




text \<open>
  One round of the loop from a state with a batch: the announcement of the batch and the
  run of the batch.
\<close>

definition batch_round ::
  "env \<Rightarrow> Flags \<Rightarrow> InputOutputMapping list \<Rightarrow> DiscoveredConfigForNestedGeneration list
     \<Rightarrow> string list \<Rightarrow> world \<Rightarrow> string option \<times> string list \<times> world" where
  "batch_round E cliFlags ios queue generated w =
     run_batch E cliFlags ios (batchToGenerate queue generated) generated
       (emit (batch_log (batchToGenerate queue generated)) w)"

section \<open>Properties of a single generation\<close>

lemma trace_emit [simp]: "trace (emit e w) = trace w @ [e]"
  by (simp add: emit_def)

lemma fs_emit [simp]: "fs (emit e w) = fs w"
  by (simp add: emit_def)

lemma readFile_fs [simp]: "fs (snd (readFile p w)) = fs w"
  by (simp add: readFile_def split: option.splits fs_entry.splits)

lemma readFile_Some:
  "readFile p w = (Some t, w') \<longleftrightarrow> fs w p = Some (File t) \<and> w' = emit (ReadFile p True) w"
  by (auto simp: readFile_def split: option.splits fs_entry.splits)

lemma readFile_None:
  "readFile p w = (None, w') \<longleftrightarrow>
     (\<forall>t. fs w p \<noteq> Some (File t)) \<and> w' = emit (ReadFile p False) w"
  by (auto simp: readFile_def split: option.splits fs_entry.splits)

lemma prepare_Success:
  assumes "prepareGeneratorConfig E args fileConfig cliFlags ios w = (Resolved (Success d), w1)"
  shows "inputPath d =
           path_join E (cwd E) (or_empty (js_or (arg_input args) (map_option cfg_input fileConfig)))"
    and "outputPath d =
           path_join E (cwd E)
             (if truthy (js_or (arg_output args) (map_option cfg_output fileConfig))
              then or_empty (js_or (arg_output args) (map_option cfg_output fileConfig))
              else or_empty (js_or (arg_input args) (map_option cfg_input fileConfig)))"
    and "w1 = emit (ReadFile (inputPath d) True) w"
    and "fs w (inputPath d) = Some (File (sourceText (generateOptions d)))"
  using assms
  by (auto simp: prepareGeneratorConfig_def Let_def readFile_Some build_generateOptions_def
      split: if_splits prod.splits option.splits)

text \<open>
  C1. A single-file generation whose preparation succeeded, whose core result has
  \<open>hasCircularDependencies\<close> and for which no output was supplied (the positional
  argument and the config's field are both undefined or empty) returns the failure that
  asks for \<open>--output=\<close>. Up to that return it has read the input file and done nothing
  else: the worker was not called, nothing was written, the file system is unchanged.
\<close>

theorem generate_circular_without_output:
  assumes "prepareGeneratorConfig E args fileConfig cliFlags ios w = (Resolved (Success d), w1)"
    and "hasCircularDependencies (generateCoreFileContent E (generateOptions d))"
    and "\<not> truthy (arg_output args)"
    and "\<not> truthy (map_option cfg_output fileConfig)"
  shows "generate E args fileConfig cliFlags ios w =
           (Resolved (Failure
              ''--output= must also be provided when input files have some circular dependencies''),
            w1)
         \<and> trace w1 = trace w @ [ReadFile (inputPath d) True]
         \<and> fs w1 = fs w"
proof -
  have "\<not> truthy (js_or (arg_output args) (map_option cfg_output fileConfig))"
    using assms(3,4) by (simp add: js_or_def)
  then have "executeCoreGeneration E (generateOptions d)
               (truthy (js_or (arg_output args) (map_option cfg_output fileConfig)))
             = Failure circular_error"
    using assms(2) by (simp add: executeCoreGeneration_def)
  then have "generate E args fileConfig cliFlags ios w = (Resolved (Failure circular_error), w1)"
    using assms(1) by (simp add: generate_def)
  moreover have "w1 = emit (ReadFile (inputPath d) True) w"
    using assms(1) by (rule prepare_Success(3))
  ultimately show ?thesis
    by (simp add: circular_error_def)
qed

theorem generate_circular_without_output_witness:
  "hasCircularDependencies
     (generateCoreFileContent (demo_env [''type A = B''] [])
        (build_generateOptions ''type A = B'' [] None demo_flags))
   \<and> generate (demo_env [''type A = B''] []) \<lparr>arg_input = Some ''a.ts'', arg_output = None\<rparr>
       None demo_flags [] (demo_world [(''/proj/a.ts'', ''type A = B'')])
     = (Resolved (Failure
          ''--output= must also be provided when input files have some circular dependencies''),
        emit (ReadFile ''/proj/a.ts'' True) (demo_world [(''/proj/a.ts'', ''type A = B'')]))"
proof -
  let ?E = "demo_env [''type A = B''] []"
  let ?w = "demo_world [(''/proj/a.ts'', ''type A = B'')]"
  let ?args = "\<lparr>arg_input = Some ''a.ts'', arg_output = None\<rparr>"
  let ?d = "\<lparr> inputPath = ''/proj/a.ts'', outputPath = ''/proj/a.ts'',
              generateOptions = build_generateOptions ''type A = B'' [] None demo_flags \<rparr>"
  have p: "prepareGeneratorConfig ?E ?args None demo_flags [] ?w
        = (Resolved (Success ?d), emit (ReadFile ''/proj/a.ts'' True) ?w)"
    by (simp add: prepareGeneratorConfig_def demo_env_def js_or_def truthy_def or_empty_def
        hasExtensions_def demo_extname_def demo_basename_def readFile_def demo_world_def Let_def)
  have c: "hasCircularDependencies (generateCoreFileContent ?E (generateOptions ?d))"
    by (simp add: demo_env_def demo_core_def build_generateOptions_def)
  have a: "\<not> truthy (arg_output ?args)" by (simp add: truthy_def)
  have b: "\<not> truthy (map_option cfg_output None)" by (simp add: truthy_def)
  from generate_circular_without_output [OF p c a b] c show ?thesis by simp
qed

lemma validate_calls_append [simp]:
  "validate_calls (xs @ ys) = validate_calls xs @ validate_calls ys"
  by (induction xs rule: validate_calls.induct) auto

lemma writes_append [simp]: "writes (xs @ ys) = writes xs @ writes ys"
  by (induction xs rule: writes.induct) auto

lemma load_extra_files_calls:
  "validate_calls (trace (snd (load_extra_files E p io acc))) = validate_calls (trace (snd acc))"
  by (auto simp: load_extra_files_def Let_def readFile_def
      split: prod.splits option.splits fs_entry.splits)

lemma fold_load_extra_files_calls:
  "validate_calls (trace (snd (fold (load_extra_files E p) ios acc)))
     = validate_calls (trace (snd acc))"
  by (induction ios arbitrary: acc) (simp_all add: load_extra_files_calls)

lemma load_extra_files_fs:
  "fs (snd (load_extra_files E p io acc)) = fs (snd acc)"
  by (auto simp: load_extra_files_def Let_def readFile_def
      split: prod.splits option.splits fs_entry.splits)

lemma fold_load_extra_files_fs:
  "fs (snd (fold (load_extra_files E p) ios acc)) = fs (snd acc)"
  by (induction ios arbitrary: acc) (simp_all add: load_extra_files_fs)

lemma validateGeneratedContent_fs:
  "fs (snd (validateGeneratedContent E cliFlags inPath outPath core opts ios w)) = fs w"
  using fold_load_extra_files_fs
    [of E inPath ios "([], emit (Spinner (SpinStart ''Validating generated types'')) w)"]
  by (simp add: validateGeneratedContent_def Let_def case_prod_beta)

lemma fs_fold_warn [simp]: "fs (fold (\<lambda>e. emit (Warn e)) es w) = fs w"
  by (induction es arbitrary: w) simp_all

lemma writeOutputFiles_last:
  "trace (writeOutputFiles E outPath inPath core opts w) \<noteq> [] \<and>
   last (trace (writeOutputFiles E outPath inPath core opts w))
     = WriteFile outPath (rendered_schemas E outPath inPath core)"
  by (simp add: writeOutputFiles_def outputFile_def Let_def)

lemma writeOutputFiles_fs:
  "fs (writeOutputFiles E outPath inPath core opts w) outPath
     = Some (File (rendered_schemas E outPath inPath core))"
  by (simp add: writeOutputFiles_def outputFile_def Let_def)

text \<open>A generation that returns success has prepared, has run the core and has written.\<close>

lemma generate_Success:
  assumes "generate E args fileConfig cliFlags ios w = (Resolved (Success ()), w')"
  shows "\<exists>d w1 w3.
           prepareGeneratorConfig E args fileConfig cliFlags ios w = (Resolved (Success d), w1)
           \<and> fs w3 = fs w
           \<and> w' = writeOutputFiles E (outputPath d) (inputPath d)
                    (generateCoreFileContent E (generateOptions d)) (generateOptions d) w3"
proof -
  obtain r w1 where p: "prepareGeneratorConfig E args fileConfig cliFlags ios w = (r, w1)"
    by (cases "prepareGeneratorConfig E args fileConfig cliFlags ios w")
  with assms obtain d where r: "r = Resolved (Success d)"
    by (auto simp: generate_def split: promise.splits step_result.splits)
  have w1: "fs w1 = fs w"
    using prepare_Success(3) [OF p [unfolded r]] by simp
  let ?core = "generateCoreFileContent E (generateOptions d)"
  let ?w2 = "fold (\<lambda>e. emit (Warn e)) (errors ?core) w1"
  have ex: "executeCoreGeneration E (generateOptions d)
              (truthy (js_or (arg_output args) (map_option cfg_output fileConfig))) = Success ?core"
    using assms p r
    by (auto simp: generate_def executeCoreGeneration_def Let_def split: if_splits)
  show ?thesis
  proof (cases "skipValidation cliFlags")
    case True
    with assms p r ex
    have "w' = writeOutputFiles E (outputPath d) (inputPath d) ?core (generateOptions d) ?w2"
      by (simp add: generate_def Let_def)
    with p r w1 show ?thesis
      by (intro exI [of _ d] exI [of _ w1] exI [of _ ?w2]) simp
  next
    case False
    obtain v w3 where v: "validateGeneratedContent E cliFlags (inputPath d) (outputPath d)
                            ?core (generateOptions d) ios ?w2 = (v, w3)"
      by (cases "validateGeneratedContent E cliFlags (inputPath d) (outputPath d)
                            ?core (generateOptions d) ios ?w2")
    have "fs w3 = fs ?w2"
      using validateGeneratedContent_fs [of E cliFlags "inputPath d" "outputPath d" ?core
          "generateOptions d" ios ?w2] v by simp
    moreover from assms p r ex False v
    have "w' = writeOutputFiles E (outputPath d) (inputPath d) ?core (generateOptions d) w3"
      by (auto simp: generate_def Let_def split: step_result.splits)
    ultimately show ?thesis
      using p r w1 by (intro exI [of _ d] exI [of _ w1] exI [of _ w3]) simp
  qed
qed

text \<open>
  C9. When neither the positional output argument nor the config's output is set
  (undefined or empty), a successful preparation gives an output path equal to the input
  path; and a generation that returns success has then, as its last action, written the
  rendered schema file at the input path, over the source file it had read there.
\<close>

theorem default_output_overwrites_input:
  assumes "\<not> truthy (arg_output args)" and "\<not> truthy (map_option cfg_output fileConfig)"
  shows "(\<forall>d w1. prepareGeneratorConfig E args fileConfig cliFlags ios w
                   = (Resolved (Success d), w1)
             \<longrightarrow> outputPath d = inputPath d)
       \<and> (\<forall>w'. generate E args fileConfig cliFlags ios w = (Resolved (Success ()), w') \<longrightarrow>
             (\<exists>d w1. prepareGeneratorConfig E args fileConfig cliFlags ios w
                       = (Resolved (Success d), w1)
                \<and> fs w (inputPath d) = Some (File (sourceText (generateOptions d)))
                \<and> trace w' \<noteq> []
                \<and> last (trace w') =
                    WriteFile (inputPath d)
                      (rendered_schemas E (inputPath d) (inputPath d)
                         (generateCoreFileContent E (generateOptions d)))
                \<and> fs w' (inputPath d) =
                    Some (File (rendered_schemas E (inputPath d) (inputPath d)
                            (generateCoreFileContent E (generateOptions d))))))"
proof -
  have no: "\<not> truthy (js_or (arg_output args) (map_option cfg_output fileConfig))"
    using assms by (simp add: js_or_def)
  have same: "outputPath d = inputPath d"
    if "prepareGeneratorConfig E args fileConfig cliFlags ios w = (Resolved (Success d), w1)"
    for d w1
    using prepare_Success(1,2) [OF that] no by simp
  show ?thesis
  proof (intro conjI allI impI)
    fix d w1
    assume "prepareGeneratorConfig E args fileConfig cliFlags ios w = (Resolved (Success d), w1)"
    then show "outputPath d = inputPath d" by (rule same)
  next
    fix w'
    assume g: "generate E args fileConfig cliFlags ios w = (Resolved (Success ()), w')"
    from generate_Success [OF g] obtain d w1 w3 where
      p: "prepareGeneratorConfig E args fileConfig cliFlags ios w = (Resolved (Success d), w1)"
      and w': "w' = writeOutputFiles E (outputPath d) (inputPath d)
                    (generateCoreFileContent E (generateOptions d)) (generateOptions d) w3"
      by blast
    have o: "outputPath d = inputPath d" using p by (rule same)
    show "\<exists>d w1. prepareGeneratorConfig E args fileConfig cliFlags ios w
                   = (Resolved (Success d), w1)
                \<and> fs w (inputPath d) = Some (File (sourceText (generateOptions d)))
                \<and> trace w' \<noteq> []
                \<and> last (trace w') =
                    WriteFile (inputPath d)
                      (rendered_schemas E (inputPath d) (inputPath d)
                         (generateCoreFileContent E (generateOptions d)))
                \<and> fs w' (inputPath d) =
                    Some (File (rendered_schemas E (inputPath d) (inputPath d)
                            (generateCoreFileContent E (generateOptions d))))"
      using p prepare_Success(4) [OF p] writeOutputFiles_last writeOutputFiles_fs
      unfolding w' o by blast
  qed
qed

lemmas demo_defs =
  demo_env_def demo_core_def demo_flags_def demo_world_def demo_basename_def demo_dirname_def
  demo_extname_def demo_stem_def demo_resolve_def demo_relative_def demo_parse_def

theorem default_output_overwrites_input_witness:
  "prepareGeneratorConfig (demo_env [] []) \<lparr>arg_input = Some ''a.ts'', arg_output = None\<rparr> None
     demo_flags [] (demo_world [(''/proj/a.ts'', ''type A = string'')])
   = (Resolved (Success
        \<lparr> inputPath = ''/proj/a.ts'', outputPath = ''/proj/a.ts'',
          generateOptions = build_generateOptions ''type A = string'' [] None demo_flags \<rparr>),
      emit (ReadFile ''/proj/a.ts'' True) (demo_world [(''/proj/a.ts'', ''type A = string'')]))
   \<and> fst (generate (demo_env [] []) \<lparr>arg_input = Some ''a.ts'', arg_output = None\<rparr> None
          demo_flags [] (demo_world [(''/proj/a.ts'', ''type A = string'')]))
     = Resolved (Success ())
   \<and> last (trace (snd (generate (demo_env [] []) \<lparr>arg_input = Some ''a.ts'', arg_output = None\<rparr>
          None demo_flags [] (demo_world [(''/proj/a.ts'', ''type A = string'')]))))
     = WriteFile ''/proj/a.ts'' ''schemas importing /''
   \<and> fs (snd (generate (demo_env [] []) \<lparr>arg_input = Some ''a.ts'', arg_output = None\<rparr>
          None demo_flags [] (demo_world [(''/proj/a.ts'', ''type A = string'')]))) ''/proj/a.ts''
     = Some (File ''schemas importing /'')"
proof -
  let ?E = "demo_env [] []"
  let ?w = "demo_world [(''/proj/a.ts'', ''type A = string'')]"
  let ?args = "\<lparr>arg_input = Some ''a.ts'', arg_output = None\<rparr>"
  let ?d = "\<lparr> inputPath = ''/proj/a.ts'', outputPath = ''/proj/a.ts'',
              generateOptions = build_generateOptions ''type A = string'' [] None demo_flags \<rparr>"
  let ?g = "generate ?E ?args None demo_flags [] ?w"
  have p: "prepareGeneratorConfig ?E ?args None demo_flags [] ?w
        = (Resolved (Success ?d), emit (ReadFile ''/proj/a.ts'' True) ?w)"
    by (simp add: prepareGeneratorConfig_def demo_env_def js_or_def truthy_def or_empty_def
        hasExtensions_def demo_extname_def demo_basename_def readFile_def demo_world_def Let_def)
  have g: "fst ?g = Resolved (Success ())"
    by code_simp
  then have g': "?g = (Resolved (Success ()), snd ?g)"
    by (simp add: prod_eq_iff)
  have a: "\<not> truthy (arg_output ?args)" by (simp add: truthy_def)
  have b: "\<not> truthy (map_option cfg_output None)" by (simp add: truthy_def)
  have r: "rendered_schemas ?E ''/proj/a.ts'' ''/proj/a.ts''
             (generateCoreFileContent ?E (generateOptions ?d)) = ''schemas importing /''"
    by (simp add: rendered_schemas_def hasExtensions_def strip_cwd_def demo_defs Let_def)
  from default_output_overwrites_input [OF a b, of ?E demo_flags "[]" ?w,
      THEN conjunct2, THEN spec, THEN mp, OF g']
  obtain d w1 where
    p': "prepareGeneratorConfig ?E ?args None demo_flags [] ?w = (Resolved (Success d), w1)"
    and l: "last (trace (snd ?g)) = WriteFile (inputPath d)
          (rendered_schemas ?E (inputPath d) (inputPath d)
             (generateCoreFileContent ?E (generateOptions d)))"
    and f: "fs (snd ?g) (inputPath d) = Some (File (rendered_schemas ?E (inputPath d) (inputPath d)
             (generateCoreFileContent ?E (generateOptions d))))"
    by blast
  from p p' have d: "d = ?d" by simp
  from l f r have "last (trace (snd ?g)) = WriteFile ''/proj/a.ts'' ''schemas importing /''"
    and "fs (snd ?g) ''/proj/a.ts'' = Some (File ''schemas importing /'')"
    unfolding d by simp_all
  with p g show ?thesis by (intro conjI)
qed

text \<open>
  The substitution of lines 197 to 204. When the output path equals the input path, or the
  two relative paths are equal ignoring the extension, the one call of the type-checking
  worker works with the fake path \<open>source.zod.ts\<close> in the directory of the input file: the schema file is rendered
  for that path and handed over under it, the integration tests import the schemas from
  it, and the request is the one that an output path equal to the input path gives, so the
  real output path plays no part in it.
\<close>

theorem validation_fake_output_path:
  assumes "outPath = inPath \<or>
           areImportPathsEqualIgnoringExtension E
             (strip_cwd (cwd E) inPath) (strip_cwd (cwd E) outPath)"
  shows "\<exists>req.
           validate_calls
             (trace (snd (validateGeneratedContent E cliFlags inPath outPath core opts ios w)))
             = validate_calls (trace w) @ [req]
           \<and> zodSchemas req =
               \<lparr> vf_sourceText =
                   getZodSchemasFile core
                     (getImportPath E
                        (path_join E (path_parse_dir E (path_normalize E inPath)) ''source.zod.ts'')
                        (strip_cwd (cwd E) inPath)),
                 vf_relativePath =
                   strip_cwd (cwd E)
                     (path_join E (path_parse_dir E (path_normalize E inPath)) ''source.zod.ts'') \<rparr>
           \<and> integrationTests req =
               \<lparr> vf_sourceText =
                   getIntegrationTestFile core
                     (getImportPath E ''./source.integration.ts'' (strip_cwd (cwd E) inPath))
                     (getImportPath E ''./source.integration.ts''
                        (path_join E (path_parse_dir E (path_normalize E inPath)) ''source.zod.ts'')),
                 vf_relativePath = ''./source.integration.ts'' \<rparr>
           \<and> sourceTypes req =
               \<lparr> vf_sourceText = transformedSourceText core,
                 vf_relativePath = strip_cwd (cwd E) inPath \<rparr>
           \<and> req = validation_request E inPath inPath core opts (extraFiles req)"
proof -
  let ?fake = "path_join E (path_parse_dir E (path_normalize E inPath)) ''source.zod.ts''"
  let ?w0 = "emit (Spinner (SpinStart ''Validating generated types'')) w"
  let ?acc = "fold (load_extra_files E inPath) ios ([], ?w0)"
  let ?req = "validation_request E inPath outPath core opts (fst ?acc)"
  have ofv: "outputForValidation E inPath outPath = ?fake"
    using assms by (auto simp: outputForValidation_def)
  have ofv': "outputForValidation E inPath inPath = ?fake"
    by (simp add: outputForValidation_def)
  have "validate_calls (trace (snd ?acc)) = validate_calls (trace w)"
    by (simp add: fold_load_extra_files_calls)
  then have "validate_calls
               (trace (snd (validateGeneratedContent E cliFlags inPath outPath core opts ios w)))
             = validate_calls (trace w) @ [?req]"
    by (simp add: validateGeneratedContent_def Let_def case_prod_beta)
  moreover have "zodSchemas ?req =
      \<lparr> vf_sourceText = getZodSchemasFile core (getImportPath E ?fake (strip_cwd (cwd E) inPath)),
        vf_relativePath = strip_cwd (cwd E) ?fake \<rparr>"
    by (simp add: validation_request_def Let_def ofv)
  moreover have "integrationTests ?req =
      \<lparr> vf_sourceText =
          getIntegrationTestFile core
            (getImportPath E ''./source.integration.ts'' (strip_cwd (cwd E) inPath))
            (getImportPath E ''./source.integration.ts'' ?fake),
        vf_relativePath = ''./source.integration.ts'' \<rparr>"
    by (simp add: validation_request_def Let_def ofv)
  moreover have "sourceTypes ?req =
      \<lparr> vf_sourceText = transformedSourceText core,
        vf_relativePath = strip_cwd (cwd E) inPath \<rparr>"
    by (simp add: validation_request_def Let_def)
  moreover have "?req = validation_request E inPath inPath core opts (extraFiles ?req)"
    by (simp add: validation_request_def Let_def ofv ofv')
  ultimately show ?thesis by blast
qed

theorem validation_fake_output_path_witness:
  "areImportPathsEqualIgnoringExtension (demo_env [] [])
     (strip_cwd (cwd (demo_env [] [])) ''/proj/src/a.ts'')
     (strip_cwd (cwd (demo_env [] [])) ''/proj/src/a.js'')
   \<and> (\<exists>req.
        validate_calls
          (trace (snd (validateGeneratedContent (demo_env [] []) demo_flags
             ''/proj/src/a.ts'' ''/proj/src/a.js''
             (demo_core [] (build_generateOptions ''type A = string'' [] None demo_flags))
             (build_generateOptions ''type A = string'' [] None demo_flags) []
             (demo_world [(''/proj/src/a.ts'', ''type A = string'')]))))
          = [req]
        \<and> zodSchemas req =
            \<lparr> vf_sourceText = ''schemas importing ./a'',
              vf_relativePath = ''src/source.zod.ts'' \<rparr>
        \<and> integrationTests req =
            \<lparr> vf_sourceText = ''tests importing ./a and ./source.zod'',
              vf_relativePath = ''./source.integration.ts'' \<rparr>)"
proof -
  let ?E = "demo_env [] []"
  let ?core = "demo_core [] (build_generateOptions ''type A = string'' [] None demo_flags)"
  let ?fake = "path_join ?E (path_parse_dir ?E (path_normalize ?E ''/proj/src/a.ts''))
                 ''source.zod.ts''"
  let ?in = "strip_cwd (cwd ?E) ''/proj/src/a.ts''"
  have c: "areImportPathsEqualIgnoringExtension ?E ?in (strip_cwd (cwd ?E) ''/proj/src/a.js'')"
    by code_simp
  have e1: "getZodSchemasFile ?core (getImportPath ?E ?fake ?in) = ''schemas importing ./a''"
    by code_simp
  have e2: "strip_cwd (cwd ?E) ?fake = ''src/source.zod.ts''"
    by code_simp
  have e3: "getIntegrationTestFile ?core (getImportPath ?E ''./source.integration.ts'' ?in)
              (getImportPath ?E ''./source.integration.ts'' ?fake)
            = ''tests importing ./a and ./source.zod''"
    by code_simp
  have e4: "validate_calls (trace (demo_world [(''/proj/src/a.ts'', ''type A = string'')])) = []"
    by (simp add: demo_world_def)
  from validation_fake_output_path [OF disjI2, OF c, of demo_flags ?core
      "build_generateOptions ''type A = string'' [] None demo_flags" "[]"
      "demo_world [(''/proj/src/a.ts'', ''type A = string'')]"]
  show ?thesis
    unfolding e1 e2 e3 e4 using c by auto
qed

text \<open>
  C7. The fake path is there to keep the schema file apart from the source file during
  the validation. It is always the name \<open>source.zod.ts\<close> in the directory of the
  input, also when the input file has that name itself. Take the input \<open>source.zod.ts\<close>
  in the working directory and no output, with a \<open>path\<close> for which the directory of
  \<open>join(cwd, "source.zod.ts")\<close> is \<open>cwd\<close>, as it is for Node's. Input path and output
  path are then the same path, the condition of the substitution holds, and the fake path
  is that same path again: the worker is handed the generated schemas under the relative
  path of the source types, and the schemas are rendered to import the source from their
  own path.
\<close>

theorem validation_fake_output_path_is_input:
  assumes "path_parse_dir E (path_normalize E (path_join E (cwd E) ''source.zod.ts'')) = cwd E"
  shows "outputForValidation E (path_join E (cwd E) ''source.zod.ts'')
           (path_join E (cwd E) ''source.zod.ts'')
         = path_join E (cwd E) ''source.zod.ts''
       \<and> (\<forall>d w1. prepareGeneratorConfig E \<lparr>arg_input = Some ''source.zod.ts'', arg_output = None\<rparr>
                     None cliFlags ios w = (Resolved (Success d), w1)
                  \<longrightarrow> inputPath d = path_join E (cwd E) ''source.zod.ts''
                      \<and> outputPath d = path_join E (cwd E) ''source.zod.ts'')
       \<and> (\<exists>req.
             validate_calls
               (trace (snd (validateGeneratedContent E cliFlags
                   (path_join E (cwd E) ''source.zod.ts'') (path_join E (cwd E) ''source.zod.ts'')
                   core opts ios w)))
               = validate_calls (trace w) @ [req]
             \<and> sourceTypes req =
                 \<lparr> vf_sourceText = transformedSourceText core,
                   vf_relativePath = strip_cwd (cwd E) (path_join E (cwd E) ''source.zod.ts'') \<rparr>
             \<and> zodSchemas req =
                 \<lparr> vf_sourceText =
                     getZodSchemasFile core
                       (getImportPath E (path_join E (cwd E) ''source.zod.ts'')
                          (strip_cwd (cwd E) (path_join E (cwd E) ''source.zod.ts''))),
                   vf_relativePath = strip_cwd (cwd E) (path_join E (cwd E) ''source.zod.ts'') \<rparr>
             \<and> vf_relativePath (zodSchemas req) = vf_relativePath (sourceTypes req))"
proof (intro conjI)
  let ?p = "path_join E (cwd E) ''source.zod.ts''"
  let ?w0 = "emit (Spinner (SpinStart ''Validating generated types'')) w"
  let ?acc = "fold (load_extra_files E ?p) ios ([], ?w0)"
  let ?req = "validation_request E ?p ?p core opts (fst ?acc)"
  show ofv: "outputForValidation E ?p ?p = ?p"
    using assms by (simp add: outputForValidation_def)
  show "\<forall>d w1. prepareGeneratorConfig E \<lparr>arg_input = Some ''source.zod.ts'', arg_output = None\<rparr>
                     None cliFlags ios w = (Resolved (Success d), w1)
                  \<longrightarrow> inputPath d = ?p \<and> outputPath d = ?p"
  proof (intro allI impI)
    fix d w1
    assume "prepareGeneratorConfig E \<lparr>arg_input = Some ''source.zod.ts'', arg_output = None\<rparr>
              None cliFlags ios w = (Resolved (Success d), w1)"
    from prepare_Success(1,2) [OF this]
    show "inputPath d = ?p \<and> outputPath d = ?p"
      by (simp add: js_or_def truthy_def or_empty_def)
  qed
  have "validate_calls (trace (snd ?acc)) = validate_calls (trace w)"
    by (simp add: fold_load_extra_files_calls)
  then have 1: "validate_calls
               (trace (snd (validateGeneratedContent E cliFlags ?p ?p core opts ios w)))
             = validate_calls (trace w) @ [?req]"
    by (simp add: validateGeneratedContent_def Let_def case_prod_beta)
  have 2: "sourceTypes ?req =
      \<lparr> vf_sourceText = transformedSourceText core, vf_relativePath = strip_cwd (cwd E) ?p \<rparr>"
    by (simp add: validation_request_def Let_def)
  have 3: "zodSchemas ?req =
      \<lparr> vf_sourceText = getZodSchemasFile core (getImportPath E ?p (strip_cwd (cwd E) ?p)),
        vf_relativePath = strip_cwd (cwd E) ?p \<rparr>"
    by (simp add: validation_request_def Let_def ofv)
  from 2 3 have 4: "vf_relativePath (zodSchemas ?req) = vf_relativePath (sourceTypes ?req)"
    by simp
  show "\<exists>req.
             validate_calls
               (trace (snd (validateGeneratedContent E cliFlags ?p ?p core opts ios w)))
               = validate_calls (trace w) @ [req]
             \<and> sourceTypes req =
                 \<lparr> vf_sourceText = transformedSourceText core,
                   vf_relativePath = strip_cwd (cwd E) ?p \<rparr>
             \<and> zodSchemas req =
                 \<lparr> vf_sourceText =
                     getZodSchemasFile core (getImportPath E ?p (strip_cwd (cwd E) ?p)),
                   vf_relativePath = strip_cwd (cwd E) ?p \<rparr>
             \<and> vf_relativePath (zodSchemas req) = vf_relativePath (sourceTypes req)"
    by (rule exI [of _ ?req]) (intro conjI 1 2 3 4)
qed

text \<open>
  In the small environment: the generation of \<open>/proj/source.zod.ts\<close> without an output
  succeeds, and its one call of the worker has source and schemas both at
  \<open>source.zod.ts\<close>.
\<close>

theorem validation_fake_output_path_is_input_witness:
  "path_parse_dir (demo_env [] [])
     (path_normalize (demo_env [] [])
        (path_join (demo_env [] []) (cwd (demo_env [] [])) ''source.zod.ts''))
     = cwd (demo_env [] [])
   \<and> path_join (demo_env [] []) (cwd (demo_env [] [])) ''source.zod.ts'' = ''/proj/source.zod.ts''
   \<and> outputForValidation (demo_env [] []) ''/proj/source.zod.ts'' ''/proj/source.zod.ts''
       = ''/proj/source.zod.ts''
   \<and> (\<exists>d w1. prepareGeneratorConfig (demo_env [] [])
                  \<lparr>arg_input = Some ''source.zod.ts'', arg_output = None\<rparr> None demo_flags []
                  (demo_world [(''/proj/source.zod.ts'', ''type A = string'')])
                = (Resolved (Success d), w1)
              \<and> inputPath d = ''/proj/source.zod.ts''
              \<and> outputPath d = ''/proj/source.zod.ts'')
   \<and> fst (generate (demo_env [] []) \<lparr>arg_input = Some ''source.zod.ts'', arg_output = None\<rparr>
            None demo_flags [] (demo_world [(''/proj/source.zod.ts'', ''type A = string'')]))
       = Resolved (Success ())
   \<and> map (\<lambda>req. (vf_relativePath (sourceTypes req), vf_relativePath (zodSchemas req)))
         (validate_calls (trace (snd (generate (demo_env [] [])
            \<lparr>arg_input = Some ''source.zod.ts'', arg_output = None\<rparr>
            None demo_flags [] (demo_world [(''/proj/source.zod.ts'', ''type A = string'')])))))
       = [(''source.zod.ts'', ''source.zod.ts'')]"
proof -
  let ?E = "demo_env [] []"
  let ?p = "path_join ?E (cwd ?E) ''source.zod.ts''"
  have h: "path_parse_dir ?E (path_normalize ?E ?p) = cwd ?E" by code_simp
  have p: "?p = ''/proj/source.zod.ts''" by code_simp
  from validation_fake_output_path_is_input [OF h, THEN conjunct1]
  have o: "outputForValidation ?E ''/proj/source.zod.ts'' ''/proj/source.zod.ts''
             = ''/proj/source.zod.ts''"
    unfolding p .
  let ?prep = "prepareGeneratorConfig ?E \<lparr>arg_input = Some ''source.zod.ts'', arg_output = None\<rparr>
                 None demo_flags [] (demo_world [(''/proj/source.zod.ts'', ''type A = string'')])"
  have "case ?prep of (Resolved (Success d), w1) \<Rightarrow> True | _ \<Rightarrow> False" by code_simp
  then obtain d w1 where d: "?prep = (Resolved (Success d), w1)"
    by (auto split: prod.splits promise.splits step_result.splits)
  from validation_fake_output_path_is_input [OF h, THEN conjunct2, THEN conjunct1,
      THEN spec, THEN spec, THEN mp, OF d]
  have "inputPath d = ''/proj/source.zod.ts'' \<and> outputPath d = ''/proj/source.zod.ts''"
    unfolding p .
  with d have e: "\<exists>d w1. ?prep = (Resolved (Success d), w1)
              \<and> inputPath d = ''/proj/source.zod.ts''
              \<and> outputPath d = ''/proj/source.zod.ts''"
    by blast
  have g: "fst (generate ?E \<lparr>arg_input = Some ''source.zod.ts'', arg_output = None\<rparr>
            None demo_flags [] (demo_world [(''/proj/source.zod.ts'', ''type A = string'')]))
       = Resolved (Success ())"
    by code_simp
  have v: "map (\<lambda>req. (vf_relativePath (sourceTypes req), vf_relativePath (zodSchemas req)))
         (validate_calls (trace (snd (generate ?E
            \<lparr>arg_input = Some ''source.zod.ts'', arg_output = None\<rparr>
            None demo_flags [] (demo_world [(''/proj/source.zod.ts'', ''type A = string'')])))))
       = [(''source.zod.ts'', ''source.zod.ts'')]"
    by code_simp
  from h p o e g v show ?thesis by (intro conjI)
qed

section \<open>Properties of the nested file discovery\<close>

lemma reads_ok_append [simp]: "reads_ok (xs @ ys) = reads_ok xs @ reads_ok ys"
  by (induction xs rule: reads_ok.induct) auto

lemma read_attempts_append [simp]: "read_attempts (xs @ ys) = read_attempts xs @ read_attempts ys"
  by (induction xs rule: read_attempts.induct) auto

lemma map_fst_map_entry [simp]: "map fst (AList.map_entry k f xs) = map fst xs"
  by (induction xs) auto

lemma map_of_map_entry_other: "k' \<noteq> k \<Longrightarrow> map_of (AList.map_entry k f xs) k' = map_of xs k'"
  by (induction xs) auto

lemma map_has_keys: "map_has m k \<longleftrightarrow> k \<in> set (map fst m)"
  by (auto simp: map_has_def map_of_eq_None_iff)

lemma map_fst_update_new:
  "\<not> map_has m k \<Longrightarrow> map fst (AList.update k v m) = map fst m @ [k]"
  by (induction m) (auto simp: map_has_keys)

lemma discovery_extends_refl [simp]: "discovery_extends st st"
  by (simp add: discovery_extends_def)

lemma discovery_extends_trans:
  assumes "discovery_extends a b" and "discovery_extends b c"
  shows "discovery_extends a c"
proof -
  from assms obtain k1 k2 where
    k1: "map fst (fst b) = map fst (fst a) @ k1"
        "reads_ok (trace (snd b)) = reads_ok (trace (snd a)) @ k1"
    and k2: "map fst (fst c) = map fst (fst b) @ k2"
        "reads_ok (trace (snd c)) = reads_ok (trace (snd b)) @ k2"
    unfolding discovery_extends_def by blast
  have keys: "\<exists>ks. map fst (fst c) = map fst (fst a) @ ks
              \<and> reads_ok (trace (snd c)) = reads_ok (trace (snd a)) @ ks"
    using k1 k2 by (intro exI [of _ "k1 @ k2"]) simp
  have ent: "map_of (fst c) k = map_of (fst a) k" if "map_has (fst a) k" for k
  proof -
    from that k1(1) have "map_has (fst b) k" by (simp add: map_has_keys)
    with assms that show ?thesis unfolding discovery_extends_def by metis
  qed
  from assms keys ent show ?thesis
    unfolding discovery_extends_def by simp
qed

lemma discovery_extends_fold:
  assumes "\<And>x s. x \<in> set xs \<Longrightarrow> discovery_extends s (f x s)"
  shows "discovery_extends s (fold f xs s)"
  using assms
proof (induction xs arbitrary: s)
  case Nil
  then show ?case by simp
next
  case (Cons x xs)
  have "discovery_extends s (f x s)" using Cons.prems by simp
  moreover have "discovery_extends (f x s) (fold f xs (f x s))"
    using Cons.prems by (intro Cons.IH) simp
  ultimately show ?case
    using discovery_extends_trans by fastforce
qed

text \<open>The callback on one node, through \<open>import_target\<close>.\<close>

lemma visit_node_eq:
  "visit_node E a rel nd (disc, q, w) =
     (case import_target E w a nd of
        Some r \<Rightarrow>
          (AList.map_entry a
             (\<lambda>info. info\<lparr>localImportAbsPaths := set_add r (localImportAbsPaths info)\<rparr>) disc,
           if \<not> map_has disc r then q @ [r] else q, w)
      | None \<Rightarrow>
          (disc, q,
           (case nd of
              ImportDeclaration (Some s) \<Rightarrow>
                if startsWith s ''./'' \<or> startsWith s ''../''
                then emit (Debug (skip_message s rel (resolve_import E w a s))) w else w
            | _ \<Rightarrow> w)))"
  by (auto simp: visit_node_def import_target_def Let_def split: node.splits option.splits)

lemma visit_node_scan_ok: "scan_ok a st (visit_node E a rel nd st)"
  by (cases st) (auto simp: visit_node_eq scan_ok_def map_of_map_entry_other
      split: option.splits node.splits)

lemma fold_visit_node_scan_ok: "scan_ok a st (fold (visit_node E a rel) nds st)"
proof (induction nds arbitrary: st)
  case Nil
  show ?case by (simp add: scan_ok_def)
next
  case (Cons nd nds)
  from visit_node_scan_ok [of a st E rel nd] Cons.IH [of "visit_node E a rel nd st"]
  show ?case by (simp add: scan_ok_def)
qed

text \<open>The four ways through \<open>performFileDiscovery\<close>.\<close>

lemma performFileDiscovery_too_deep:
  "m < d \<Longrightarrow> performFileDiscovery E a m d st =
     (fst st, emit (Warn (max_depth_message m (relative_to_cwd E a))) (snd st))"
  by (simp add: performFileDiscovery.simps)

lemma performFileDiscovery_seen:
  "\<not> m < d \<Longrightarrow> map_has (fst st) a \<Longrightarrow> performFileDiscovery E a m d st =
     (fst st,
      emit (Debug (''Skipping already processed file for discovery: '' @ a)) (snd st))"
  by (simp add: performFileDiscovery.simps)

lemma performFileDiscovery_unreadable:
  assumes "\<not> m < d" and "\<not> map_has (fst st) a" and "\<forall>content. fs (snd st) a \<noteq> Some (File content)"
  shows "performFileDiscovery E a m d st =
     (fst st,
      emit (Warn (''Could not read file '' @ relative_to_cwd E a @
                  '' during discovery. Skipping. Error: '' @ fs_error_message E a))
        (emit (ReadFile a False)
           (emit (Log (''Discovering imports in: '' @ relative_to_cwd E a @ '' (depth: '' @
                       show_int d @ '')'')) (snd st))))"
proof -
  have "readFile a w = (None, emit (ReadFile a False) w)"
    if "\<forall>content. fs w a \<noteq> Some (File content)" for w
    using that by (auto simp: readFile_def split: option.splits fs_entry.splits)
  then show ?thesis
    using assms by (simp add: performFileDiscovery.simps Let_def)
qed

lemma performFileDiscovery_fresh:
  assumes "\<not> m < d" and "\<not> map_has (fst st) a" and "fs (snd st) a = Some (File content)"
  shows "performFileDiscovery E a m d st =
           fold (\<lambda>p. performFileDiscovery E p m (d + 1))
             (uniq (fst (snd (scan_file E a d content st))))
             (fst (scan_file E a d content st), snd (snd (scan_file E a d content st)))"
proof -
  have "readFile a w = (Some content, emit (ReadFile a True) w)"
    if "fs w a = Some (File content)" for w
    using that by (simp add: readFile_def)
  then show ?thesis
    using assms by (simp add: performFileDiscovery.simps Let_def scan_file_def)
qed

text \<open>The recursive calls of a call that read its file, as the induction rule names them.\<close>

lemma performFileDiscovery_IH_premises:
  assumes "fs (snd st) a = Some (File content)"
    and "c \<in> set (uniq (fst (snd (scan_file E a d content st))))"
  shows "fst (readFile a
            (emit (Log (''Discovering imports in: '' @ relative_to_cwd E a @ '' (depth: '' @
                        show_int d @ '')'')) (snd st))) = Some content"
    and "c \<in> set (uniq (fst (snd (fold (visit_node E a (relative_to_cwd E a))
            (createSourceFile E a content)
            (AList.update a \<lparr>relativePath = relative_to_cwd E a, localImportAbsPaths = []\<rparr>
               (fst st),
             [],
             snd (readFile a
               (emit (Log (''Discovering imports in: '' @ relative_to_cwd E a @ '' (depth: '' @
                           show_int d @ '')'')) (snd st))))))))"
  using assms by (simp_all add: readFile_def scan_file_def)

lemma scan_file_ok:
  "scan_ok a
     (AList.update a \<lparr> relativePath = relative_to_cwd E a, localImportAbsPaths = [] \<rparr> (fst st), [],
      emit (ReadFile a True)
        (emit (Log (''Discovering imports in: '' @ relative_to_cwd E a @ '' (depth: '' @
                    show_int d @ '')'')) (snd st)))
     (scan_file E a d content st)"
  unfolding scan_file_def by (rule fold_visit_node_scan_ok)

lemma scan_file_keys:
  "\<not> map_has (fst st) a \<Longrightarrow> map fst (fst (scan_file E a d content st)) = map fst (fst st) @ [a]"
  using scan_file_ok [of a E st d content] by (simp add: scan_ok_def map_fst_update_new)

lemma scan_file_fs: "fs (snd (snd (scan_file E a d content st))) = fs (snd st)"
  using scan_file_ok [of a E st d content] by (simp add: scan_ok_def)

lemma scan_file_reads:
  "reads_ok (trace (snd (snd (scan_file E a d content st)))) = reads_ok (trace (snd st)) @ [a]"
  using scan_file_ok [of a E st d content] by (simp add: scan_ok_def)

lemma performFileDiscovery_extends:
  "discovery_extends st (performFileDiscovery E a m d st)"
proof (induction E a m d st rule: performFileDiscovery.induct)
  case (1 E a m d st)
  consider "m < d" | "\<not> m < d" "map_has (fst st) a"
    | "\<not> m < d" "\<not> map_has (fst st) a" "\<forall>content. fs (snd st) a \<noteq> Some (File content)"
    | content where "\<not> m < d" "\<not> map_has (fst st) a" "fs (snd st) a = Some (File content)"
    by blast
  then show ?case
  proof cases
    case 1
    then show ?thesis
      by (simp add: performFileDiscovery_too_deep discovery_extends_def)
  next
    case 2
    then show ?thesis
      by (simp add: performFileDiscovery_seen discovery_extends_def)
  next
    case 3
    then show ?thesis
      by (simp add: performFileDiscovery_unreadable discovery_extends_def)
  next
    case 4
    let ?sc = "scan_file E a d content st"
    let ?st2 = "(fst ?sc, snd (snd ?sc))"
    have e1: "discovery_extends st ?st2"
      unfolding discovery_extends_def
    proof (intro conjI allI impI)
      show "fs (snd ?st2) = fs (snd st)"
        by (simp add: scan_file_fs)
      show "\<exists>ks. map fst (fst ?st2) = map fst (fst st) @ ks
              \<and> reads_ok (trace (snd ?st2)) = reads_ok (trace (snd st)) @ ks"
        using 4(2) by (intro exI [of _ "[a]"]) (simp add: scan_file_keys scan_file_reads)
      show "map_of (fst ?st2) k = map_of (fst st) k" if "map_has (fst st) k" for k
      proof -
        from that 4(2) have "k \<noteq> a" by auto
        with scan_file_ok [of a E st d content] show ?thesis
          by (simp add: scan_ok_def update_conv')
      qed
      show "distinct (map fst (fst ?st2))" if "distinct (map fst (fst st))"
        using that 4(2) by (simp add: scan_file_keys map_has_keys)
    qed
    have e2: "discovery_extends ?st2
                (fold (\<lambda>p. performFileDiscovery E p m (d + 1)) (uniq (fst (snd ?sc))) ?st2)"
    proof (rule discovery_extends_fold)
      fix c s
      assume c: "c \<in> set (uniq (fst (snd ?sc)))"
      show "discovery_extends s (performFileDiscovery E c m (d + 1) s)"
        using 4(1,2) performFileDiscovery_IH_premises [OF 4(3) c]
        by (intro "1.IH") auto
    qed
    from discovery_extends_trans [OF e1 e2] show ?thesis
      by (simp add: performFileDiscovery_fresh [OF 4])
  qed
qed

lemma existsSync_cong:
  assumes "fs w = fs w'"
  shows "existsSync w = existsSync w'"
  by (rule ext) (simp add: existsSync_def assms)

lemma resolve_import_cong:
  assumes "fs w = fs w'"
  shows "resolve_import E w = resolve_import E w'"
  unfolding resolve_import_def existsSync_cong [OF assms] by (rule refl)

lemma import_target_cong:
  assumes "fs w = fs w'"
  shows "import_target E w = import_target E w'"
  unfolding import_target_def existsSync_cong [OF assms] resolve_import_cong [OF assms]
  by (rule refl)

lemma local_imports_cong:
  assumes "fs w = fs w'"
  shows "local_imports E w = local_imports E w'"
  unfolding local_imports_def import_target_cong [OF assms] assms by (rule refl)

lemma reachable_within_cong:
  "fs w = fs w' \<Longrightarrow> reachable_within E w n a b = reachable_within E w' n a b"
  by (induction n arbitrary: a) (simp_all add: local_imports_cong [of w w'])

lemma reachable_within_self [simp]: "reachable_within E w n a a"
  by (cases n) simp_all

lemma set_uniq_from: "set (uniq_from seen xs) = set xs - set seen"
  by (induction seen xs rule: uniq_from.induct) auto

lemma set_uniq [simp]: "set (uniq xs) = set xs"
  by (simp add: uniq_def set_uniq_from)

lemma set_set_add [simp]: "set (set_add x xs) = insert x (set xs)"
  by (auto simp: set_add_def)

lemma map_has_map_entry [simp]: "map_has (AList.map_entry k f m) = map_has m"
  by (simp add: fun_eq_iff map_has_keys)

text \<open>The scan's queue and the scanned file's imports, from the targets of the nodes.\<close>

lemma fold_visit_node_result:
  assumes "fold (visit_node E a rel) nds (disc, q, w) = (disc', q', w')"
  shows "set q' = set q \<union> {r \<in> set (List.map_filter (import_target E w a) nds). \<not> map_has disc r}"
    and "map_of disc a = Some info \<Longrightarrow>
           \<exists>info'. map_of disc' a = Some info'
             \<and> relativePath info' = relativePath info
             \<and> set (localImportAbsPaths info')
                 = set (localImportAbsPaths info) \<union> set (List.map_filter (import_target E w a) nds)"
  using assms
proof (induction nds arbitrary: disc q w info)
  case Nil
  { case 1 then show ?case by simp }
  { case 2 then show ?case by simp }
next
  case (Cons nd nds)
  {
    case 1
    show ?case
    proof (cases "import_target E w a nd")
      case None
      then obtain w1 where v: "visit_node E a rel nd (disc, q, w) = (disc, q, w1)" and f: "fs w1 = fs w"
        by (auto simp: visit_node_eq split: node.splits option.splits)
      from "1" v have "fold (visit_node E a rel) nds (disc, q, w1) = (disc', q', w')" by simp
      from Cons.IH(1) [OF this] None show ?thesis
        by (simp add: import_target_cong [OF f])
    next
      case (Some r)
      let ?d1 = "AList.map_entry a
             (\<lambda>info. info\<lparr>localImportAbsPaths := set_add r (localImportAbsPaths info)\<rparr>) disc"
      let ?q1 = "if \<not> map_has disc r then q @ [r] else q"
      from Some have v: "visit_node E a rel nd (disc, q, w) = (?d1, ?q1, w)"
        by (simp add: visit_node_eq)
      from "1" v have "fold (visit_node E a rel) nds (?d1, ?q1, w) = (disc', q', w')" by simp
      from Cons.IH(1) [OF this] Some show ?thesis
        by auto
    qed
  }
  {
    case 2
    show ?case
    proof (cases "import_target E w a nd")
      case None
      then obtain w1 where v: "visit_node E a rel nd (disc, q, w) = (disc, q, w1)" and f: "fs w1 = fs w"
        by (auto simp: visit_node_eq split: node.splits option.splits)
      from "2" v have "fold (visit_node E a rel) nds (disc, q, w1) = (disc', q', w')" by simp
      from Cons.IH(2) [OF "2"(1) this] None show ?thesis
        by (simp add: import_target_cong [OF f])
    next
      case (Some r)
      let ?d1 = "AList.map_entry a
             (\<lambda>info. info\<lparr>localImportAbsPaths := set_add r (localImportAbsPaths info)\<rparr>) disc"
      let ?q1 = "if \<not> map_has disc r then q @ [r] else q"
      from Some have v: "visit_node E a rel nd (disc, q, w) = (?d1, ?q1, w)"
        by (simp add: visit_node_eq)
      from "2" v have f: "fold (visit_node E a rel) nds (?d1, ?q1, w) = (disc', q', w')" by simp
      have "map_of ?d1 a = Some (info\<lparr>localImportAbsPaths := set_add r (localImportAbsPaths info)\<rparr>)"
        using "2"(1) by (simp add: map_of_map_entry)
      from Cons.IH(2) [OF this f] Some show ?thesis
        by auto
    qed
  }
qed

lemma scan_file_result:
  assumes "\<not> map_has (fst st) a"
  shows "set (fst (snd (scan_file E a d content st)))
           = {r \<in> set (List.map_filter (import_target E (snd st) a) (createSourceFile E a content)).
                r \<noteq> a \<and> \<not> map_has (fst st) r}"
    and "\<exists>info. map_of (fst (scan_file E a d content st)) a = Some info
           \<and> relativePath info = relative_to_cwd E a
           \<and> set (localImportAbsPaths info)
               = set (List.map_filter (import_target E (snd st) a) (createSourceFile E a content))"
proof -
  let ?info0 = "\<lparr> relativePath = relative_to_cwd E a, localImportAbsPaths = [] \<rparr>"
  let ?d1 = "AList.update a ?info0 (fst st)"
  let ?w1 = "emit (ReadFile a True)
          (emit (Log (''Discovering imports in: '' @ relative_to_cwd E a @ '' (depth: '' @
                      show_int d @ '')'')) (snd st))"
  obtain disc' q' w' where sc: "scan_file E a d content st = (disc', q', w')"
    by (cases "scan_file E a d content st")
  then have f: "fold (visit_node E a (relative_to_cwd E a)) (createSourceFile E a content)
               (?d1, [], ?w1) = (disc', q', w')"
    by (simp add: scan_file_def)
  have it: "import_target E ?w1 = import_target E (snd st)"
    by (rule import_target_cong) simp
  have mh: "map_has ?d1 r \<longleftrightarrow> r = a \<or> map_has (fst st) r" for r
    by (auto simp: map_has_def update_conv')
  have q: "set q' = {r \<in> set (List.map_filter (import_target E (snd st) a)
                                 (createSourceFile E a content)). \<not> map_has ?d1 r}"
    using fold_visit_node_result(1) [OF f] unfolding it by simp
  show "set (fst (snd (scan_file E a d content st)))
           = {r \<in> set (List.map_filter (import_target E (snd st) a) (createSourceFile E a content)).
                r \<noteq> a \<and> \<not> map_has (fst st) r}"
    unfolding sc by (simp add: q mh)
  have "map_of ?d1 a = Some ?info0" by (simp add: update_conv')
  from fold_visit_node_result(2) [OF f this]
  obtain info' where "map_of disc' a = Some info'"
    and "relativePath info' = relative_to_cwd E a"
    and "set (localImportAbsPaths info')
           = set (List.map_filter (import_target E ?w1 a) (createSourceFile E a content))"
    by auto
  then show "\<exists>info. map_of (fst (scan_file E a d content st)) a = Some info
           \<and> relativePath info = relative_to_cwd E a
           \<and> set (localImportAbsPaths info)
               = set (List.map_filter (import_target E (snd st) a) (createSourceFile E a content))"
    unfolding sc it by simp
qed

lemma map_has_extends:
  assumes "discovery_extends st st'" and "map_has (fst st) k"
  shows "map_has (fst st') k"
proof -
  from assms(1) obtain ks where "map fst (fst st') = map fst (fst st) @ ks"
    unfolding discovery_extends_def by blast
  then have "set (map fst (fst st')) = set (map fst (fst st)) \<union> set ks"
    by (metis set_append)
  with assms(2) show ?thesis
    unfolding map_has_keys by blast
qed

lemma fold_discovery_reach:
  assumes step: "\<And>c s. c \<in> set cs \<Longrightarrow> fs (snd s) = F \<Longrightarrow> map_has (fst (f c s)) k
                   \<Longrightarrow> map_has (fst s) k \<or> Q c"
    and ext: "\<And>c s. c \<in> set cs \<Longrightarrow> discovery_extends s (f c s)"
    and "fs (snd s) = F"
    and "map_has (fst (fold f cs s)) k"
  shows "map_has (fst s) k \<or> (\<exists>c\<in>set cs. Q c)"
  using assms
proof (induction cs arbitrary: s)
  case Nil
  then show ?case by simp
next
  case (Cons c cs)
  have "fs (snd (f c s)) = F"
    using Cons.prems(2) [of c s] Cons.prems(3) by (simp add: discovery_extends_def)
  moreover have "map_has (fst (fold f cs (f c s))) k"
    using Cons.prems(4) by simp
  ultimately have "map_has (fst (f c s)) k \<or> (\<exists>c\<in>set cs. Q c)"
    using Cons.prems(1,2) by (intro Cons.IH) simp_all
  with Cons.prems(1) [of c s] Cons.prems(3) show ?case
    by auto
qed

lemma performFileDiscovery_reach:
  "map_has (fst (performFileDiscovery E a m d st)) k \<Longrightarrow>
     map_has (fst st) k \<or> (d \<le> m \<and> reachable_within E (snd st) (nat (m - d)) a k)"
proof (induction E a m d st arbitrary: k rule: performFileDiscovery.induct)
  case (1 E a m d st)
  consider "m < d" | "\<not> m < d" "map_has (fst st) a"
    | "\<not> m < d" "\<not> map_has (fst st) a" "\<forall>content. fs (snd st) a \<noteq> Some (File content)"
    | content where "\<not> m < d" "\<not> map_has (fst st) a" "fs (snd st) a = Some (File content)"
    by blast
  then show ?case
  proof cases
    case 1
    with "1.prems" show ?thesis by (simp add: performFileDiscovery_too_deep)
  next
    case 2
    with "1.prems" show ?thesis by (simp add: performFileDiscovery_seen)
  next
    case 3
    with "1.prems" show ?thesis by (simp add: performFileDiscovery_unreadable)
  next
    case 4
    let ?sc = "scan_file E a d content st"
    let ?st2 = "(fst ?sc, snd (snd ?sc))"
    let ?Q = "\<lambda>c. d + 1 \<le> m \<and> reachable_within E (snd st) (nat (m - (d + 1))) c k"
    have step: "map_has (fst s) k \<or> ?Q c"
      if c: "c \<in> set (uniq (fst (snd ?sc)))" and s: "fs (snd s) = fs (snd st)"
        and k: "map_has (fst (performFileDiscovery E c m (d + 1) s)) k" for c s
    proof -
      have "map_has (fst s) k \<or>
              (d + 1 \<le> m \<and> reachable_within E (snd s) (nat (m - (d + 1))) c k)"
        using 4(1,2) performFileDiscovery_IH_premises [OF 4(3) c] k
        by (intro "1.IH") auto
      then show ?thesis
        by (simp add: reachable_within_cong [OF s])
    qed
    have "map_has (fst ?st2) k \<or> (\<exists>c\<in>set (uniq (fst (snd ?sc))). ?Q c)"
    proof (rule fold_discovery_reach [where f = "\<lambda>p. performFileDiscovery E p m (d + 1)"
          and F = "fs (snd st)"])
      show "fs (snd ?st2) = fs (snd st)" by (simp add: scan_file_fs)
      show "map_has (fst (fold (\<lambda>p. performFileDiscovery E p m (d + 1))
              (uniq (fst (snd ?sc))) ?st2)) k"
        using "1.prems" by (simp add: performFileDiscovery_fresh [OF 4])
    qed (simp_all add: step performFileDiscovery_extends)
    then consider "map_has (fst ?st2) k"
      | c where "c \<in> set (fst (snd ?sc))" "?Q c"
      by auto
    then show ?thesis
    proof cases
      case 1
      then have "k \<in> set (map fst (fst st) @ [a])"
        by (simp only: map_has_keys fst_conv scan_file_keys [OF 4(2)])
      then have "k \<in> set (map fst (fst st)) \<or> k = a"
        by (metis Un_iff set_append empty_iff empty_set set_ConsD)
      with 4(1) show ?thesis
        unfolding map_has_keys by auto
    next
      case 2
      from 2(1) 4(2) have c: "c \<in> set (local_imports E (snd st) a)"
        by (simp add: scan_file_result(1) local_imports_def 4(3))
      from 2(2) have le: "d + 1 \<le> m"
        and r: "reachable_within E (snd st) (nat (m - (d + 1))) c k" by blast+
      from le have eq: "nat (m - d) = Suc (nat (m - (d + 1)))" by arith
      from c r have "list_ex (\<lambda>c. reachable_within E (snd st) (nat (m - (d + 1))) c k)
                       (local_imports E (snd st) a)"
        unfolding list_ex_iff by blast
      then have "reachable_within E (snd st) (nat (m - d)) a k"
        unfolding eq by simp
      with 4(1) show ?thesis by simp
    qed
  qed
qed

lemma endsWith_append [simp]: "endsWith (r @ s) s"
  by (simp add: endsWith_def)

lemma import_target_spec:
  assumes "import_target E w a (ImportDeclaration (Some s)) = Some t"
  shows "spec_local_import E w a s t"
  using assms
  by (auto simp: import_target_def spec_local_import_def resolve_import_def Let_def
      split: if_splits)

lemma spec_import_target:
  assumes "spec_local_import E w a s t"
  shows "\<exists>t'. import_target E w a (ImportDeclaration (Some s)) = Some t'"
proof -
  let ?r = "path_resolve E (path_dirname E a) s"
  from assms have st: "startsWith s ''./'' \<or> startsWith s ''../''"
    and t: "t = ?r \<or> (path_extname E ?r = [] \<and> (t = ?r @ ''.ts'' \<or> t = ?r @ ''.tsx''))"
    and ex: "existsSync w t" and en: "endsWith t ''.ts'' \<or> endsWith t ''.tsx''"
    by (auto simp: spec_local_import_def)
  show ?thesis
  proof (cases "path_extname E ?r = []")
    case False
    with t have "resolve_import E w a s = t" by (simp add: resolve_import_def)
    with st ex en show ?thesis by (simp add: import_target_def)
  next
    case True
    consider "existsSync w (?r @ ''.ts'')"
      | "\<not> existsSync w (?r @ ''.ts'')" "existsSync w (?r @ ''.tsx'')"
      | "\<not> existsSync w (?r @ ''.ts'')" "\<not> existsSync w (?r @ ''.tsx'')"
      by blast
    then show ?thesis
    proof cases
      case 1
      with True have "resolve_import E w a s = ?r @ ''.ts''" by (simp add: resolve_import_def)
      with st 1 show ?thesis by (simp add: import_target_def)
    next
      case 2
      with True have "resolve_import E w a s = ?r @ ''.tsx''" by (simp add: resolve_import_def)
      with st 2 show ?thesis by (simp add: import_target_def)
    next
      case 3
      with True have r: "resolve_import E w a s = ?r" by (simp add: resolve_import_def)
      from 3 t ex have "t = ?r" by auto
      with st ex en r show ?thesis by (simp add: import_target_def)
    qed
  qed
qed

lemma set_map_filter: "set (List.map_filter f xs) = {y. \<exists>x\<in>set xs. f x = Some y}"
  by (induction xs) (auto split: option.splits)

lemma import_target_Some_node:
  "import_target E w a nd = Some t \<Longrightarrow> \<exists>s. nd = ImportDeclaration (Some s)"
  by (auto simp: import_target_def split: node.splits option.splits)

text \<open>A call within the depth bound on a readable file leaves the file in the map.\<close>

lemma performFileDiscovery_records:
  assumes "\<not> m < d" and "fs (snd st) a = Some (File content)"
  shows "map_has (fst (performFileDiscovery E a m d st)) a"
proof (cases "map_has (fst st) a")
  case True
  with assms(1) show ?thesis by (simp add: performFileDiscovery_seen)
next
  case False
  let ?sc = "scan_file E a d content st"
  let ?st2 = "(fst ?sc, snd (snd ?sc))"
  have "map_has (fst ?st2) a"
    by (simp only: map_has_keys fst_conv scan_file_keys [OF False]) simp
  moreover have "discovery_extends ?st2
      (fold (\<lambda>p. performFileDiscovery E p m (d + 1)) (uniq (fst (snd ?sc))) ?st2)"
    by (intro discovery_extends_fold performFileDiscovery_extends)
  ultimately show ?thesis
    unfolding performFileDiscovery_fresh [OF assms(1) False assms(2)]
    by (rule map_has_extends [rotated])
qed

lemma fold_discovery_records:
  assumes "c \<in> set cs" and "\<not> m < d" and "fs (snd s) c = Some (File content)"
  shows "map_has (fst (fold (\<lambda>p. performFileDiscovery E p m d) cs s)) c"
  using assms
proof (induction cs arbitrary: s)
  case Nil
  then show ?case by simp
next
  case (Cons x cs)
  let ?s1 = "performFileDiscovery E x m d s"
  have ext: "discovery_extends s ?s1" by (rule performFileDiscovery_extends)
  then have f: "fs (snd ?s1) = fs (snd s)" by (simp add: discovery_extends_def)
  show ?case
  proof (cases "c = x")
    case True
    then have "map_has (fst ?s1) c"
      using Cons.prems by (simp add: performFileDiscovery_records)
    moreover have "discovery_extends ?s1 (fold (\<lambda>p. performFileDiscovery E p m d) cs ?s1)"
      by (intro discovery_extends_fold performFileDiscovery_extends)
    ultimately show ?thesis
      by (simp add: map_has_extends)
  next
    case False
    with Cons.prems f show ?thesis
      by (simp add: Cons.IH)
  qed
qed

text \<open>
  C4. From a map with distinct keys, a discovery call (which always returns: the function is
  total, whatever cycles the imports have) leaves a map with distinct keys; the keys it
  adds are exactly the files it read successfully, in the order of the reads, so each
  file is read and recorded at most once. A new readable file within the depth bound is
  the first key added, before anything its imports lead to. A call on a path that is
  already a key returns the map as it is and reads nothing.
\<close>

theorem discovery_records_each_file_once:
  assumes "distinct (map fst disc)"
  shows "distinct (map fst (fst (performFileDiscovery E a m d (disc, w))))
       \<and> (\<exists>ks. map fst (fst (performFileDiscovery E a m d (disc, w))) = map fst disc @ ks
              \<and> reads_ok (trace (snd (performFileDiscovery E a m d (disc, w))))
                  = reads_ok (trace w) @ ks
              \<and> (\<not> map_has disc a \<and> d \<le> m \<and> (\<exists>content. fs w a = Some (File content))
                   \<longrightarrow> (\<exists>ks'. ks = a # ks')))
       \<and> (map_has disc a \<longrightarrow>
             fst (performFileDiscovery E a m d (disc, w)) = disc
             \<and> read_attempts (trace (snd (performFileDiscovery E a m d (disc, w))))
                 = read_attempts (trace w))"
proof -
  let ?r = "performFileDiscovery E a m d (disc, w)"
  have ext: "discovery_extends (disc, w) ?r"
    by (rule performFileDiscovery_extends)
  then obtain ks where ks: "map fst (fst ?r) = map fst disc @ ks"
      "reads_ok (trace (snd ?r)) = reads_ok (trace w) @ ks"
    unfolding discovery_extends_def by auto
  have first: "\<not> map_has disc a \<and> d \<le> m \<and> (\<exists>content. fs w a = Some (File content))
                   \<longrightarrow> (\<exists>ks'. ks = a # ks')"
  proof (intro impI, elim conjE exE)
    fix content
    assume new: "\<not> map_has disc a" and dm: "d \<le> m" and c: "fs w a = Some (File content)"
    let ?sc = "scan_file E a d content (disc, w)"
    let ?st2 = "(fst ?sc, snd (snd ?sc))"
    have unf: "?r = fold (\<lambda>p. performFileDiscovery E p m (d + 1)) (uniq (fst (snd ?sc))) ?st2"
      using new dm c by (intro performFileDiscovery_fresh) auto
    have "discovery_extends ?st2 ?r"
      unfolding unf by (intro discovery_extends_fold performFileDiscovery_extends)
    then obtain ks2 where "map fst (fst ?r) = map fst (fst ?st2) @ ks2"
      unfolding discovery_extends_def by auto
    moreover have "map fst (fst ?st2) = map fst disc @ [a]"
      using scan_file_keys [of "(disc, w)" a E d content] new by simp
    ultimately have "map fst disc @ ks = map fst disc @ a # ks2"
      using ks(1) by simp
    then have "ks = a # ks2" by (simp only: same_append_eq)
    then show "\<exists>ks'. ks = a # ks'" ..
  qed
  have seen: "map_has disc a \<longrightarrow>
                fst ?r = disc \<and> read_attempts (trace (snd ?r)) = read_attempts (trace w)"
    by (cases "m < d") (simp_all add: performFileDiscovery_too_deep performFileDiscovery_seen)
  have dist: "distinct (map fst (fst ?r))"
    using ext assms by (simp add: discovery_extends_def)
  have "\<exists>ks. map fst (fst ?r) = map fst disc @ ks
              \<and> reads_ok (trace (snd ?r)) = reads_ok (trace w) @ ks
              \<and> (\<not> map_has disc a \<and> d \<le> m \<and> (\<exists>content. fs w a = Some (File content))
                   \<longrightarrow> (\<exists>ks'. ks = a # ks'))"
    by (rule exI [of _ ks]) (intro conjI ks first)
  with dist seen show ?thesis
    by (intro conjI)
qed

text \<open>
  C5. A discovery call whose depth exceeds \<open>maxDepth\<close> returns the map and the file system
  as they are and only emits the warning that names the path relative to the working
  directory. So a file that is not reachable from the seed along at most \<open>maxDepth\<close>
  local imports is not a key of the map that discovery from the seed returns, which is
  the set of files to generate.
\<close>

theorem discovery_depth_bound:
  "(m < d \<longrightarrow>
      performFileDiscovery E a m d (disc, w)
        = (disc,
           emit (Warn (''Maximum depth of '' @ show_int m @ '' reached for '' @
                       slash E (path_relative E (cwd E) a) @
                       ''. Stopping further discovery on this path.'')) w))
   \<and> (\<forall>k. \<not> reachable_within E w (nat m) a k \<longrightarrow>
          \<not> map_has (fst (performFileDiscovery E a m 0 ([], w))) k)"
proof (intro conjI allI impI)
  assume "m < d"
  then show "performFileDiscovery E a m d (disc, w)
        = (disc,
           emit (Warn (''Maximum depth of '' @ show_int m @ '' reached for '' @
                       slash E (path_relative E (cwd E) a) @
                       ''. Stopping further discovery on this path.'')) w)"
    by (simp add: performFileDiscovery_too_deep max_depth_message_def relative_to_cwd_def)
next
  fix k
  assume n: "\<not> reachable_within E w (nat m) a k"
  show "\<not> map_has (fst (performFileDiscovery E a m 0 ([], w))) k"
  proof
    assume "map_has (fst (performFileDiscovery E a m 0 ([], w))) k"
    from performFileDiscovery_reach [OF this] n show False
      by (simp add: map_has_def)
  qed
qed

text \<open>
  C6. For a file discovered at a depth within the bound, the imports recorded for it are
  exactly the targets that the test of lines 497 to 523 accepts for its import
  declarations. An import declaration leaves an edge if and only if its specifier is a
  local import in the specification's words, and every edge is the target of such an
  import. Every edge whose file can be read is a key of the returned map when the depth
  bound allows one more level (explored by the recursive call, or discovered before), and
  no file becomes a key but along local imports from the file.
\<close>

theorem discovery_follows_local_imports:
  assumes "fs w a = Some (File content)" and "\<not> map_has disc a" and "d \<le> m"
  shows "\<exists>info. map_of (fst (performFileDiscovery E a m d (disc, w))) a = Some info
       \<and> (\<forall>t. t \<in> set (localImportAbsPaths info) \<longleftrightarrow>
               (\<exists>s. ImportDeclaration (Some s) \<in> set (createSourceFile E a content)
                    \<and> import_target E w a (ImportDeclaration (Some s)) = Some t))
       \<and> (\<forall>s. ImportDeclaration (Some s) \<in> set (createSourceFile E a content) \<longrightarrow>
               ((\<exists>t. spec_local_import E w a s t) \<longleftrightarrow>
                (\<exists>t \<in> set (localImportAbsPaths info). spec_local_import E w a s t)))
       \<and> (\<forall>t \<in> set (localImportAbsPaths info).
               \<exists>s. ImportDeclaration (Some s) \<in> set (createSourceFile E a content)
                   \<and> spec_local_import E w a s t)
       \<and> (\<forall>t \<in> set (localImportAbsPaths info).
               d < m \<and> (\<exists>c. fs w t = Some (File c))
               \<longrightarrow> map_has (fst (performFileDiscovery E a m d (disc, w))) t)
       \<and> (\<forall>k. map_has (fst (performFileDiscovery E a m d (disc, w))) k \<longrightarrow>
               map_has disc k \<or> reachable_within E w (nat (m - d)) a k)"
proof -
  let ?r = "performFileDiscovery E a m d (disc, w)"
  let ?sc = "scan_file E a d content (disc, w)"
  let ?st2 = "(fst ?sc, snd (snd ?sc))"
  let ?nodes = "createSourceFile E a content"
  let ?T = "set (List.map_filter (import_target E w a) ?nodes)"
  have nd: "\<not> m < d" using assms(3) by simp
  have unf: "?r = fold (\<lambda>p. performFileDiscovery E p m (d + 1)) (uniq (fst (snd ?sc))) ?st2"
    using assms nd by (intro performFileDiscovery_fresh) auto
  have ext: "discovery_extends ?st2 ?r"
    unfolding unf by (intro discovery_extends_fold performFileDiscovery_extends)
  from scan_file_result(2) [of "(disc, w)" a E d content] assms(2)
  obtain info where info: "map_of (fst ?sc) a = Some info"
    and imps: "set (localImportAbsPaths info) = ?T"
    by auto
  have "map_has (fst ?st2) a" using info by (simp add: map_has_def)
  with ext have kept: "map_of (fst ?r) a = Some info"
    using info by (simp add: discovery_extends_def)
  have T: "t \<in> ?T \<longleftrightarrow> (\<exists>s. ImportDeclaration (Some s) \<in> set ?nodes
                    \<and> import_target E w a (ImportDeclaration (Some s)) = Some t)" for t
  proof
    assume "t \<in> ?T"
    then obtain x where x: "x \<in> set ?nodes" "import_target E w a x = Some t"
      unfolding set_map_filter by blast
    from import_target_Some_node [OF x(2)] obtain s where "x = ImportDeclaration (Some s)" ..
    with x show "\<exists>s. ImportDeclaration (Some s) \<in> set ?nodes
                    \<and> import_target E w a (ImportDeclaration (Some s)) = Some t"
      by blast
  next
    assume "\<exists>s. ImportDeclaration (Some s) \<in> set ?nodes
                    \<and> import_target E w a (ImportDeclaration (Some s)) = Some t"
    then show "t \<in> ?T" unfolding set_map_filter by blast
  qed
  have edges: "\<forall>t. t \<in> set (localImportAbsPaths info) \<longleftrightarrow>
               (\<exists>s. ImportDeclaration (Some s) \<in> set ?nodes
                    \<and> import_target E w a (ImportDeclaration (Some s)) = Some t)"
    unfolding imps using T by blast
  have iff: "\<forall>s. ImportDeclaration (Some s) \<in> set ?nodes \<longrightarrow>
               ((\<exists>t. spec_local_import E w a s t) \<longleftrightarrow>
                (\<exists>t \<in> set (localImportAbsPaths info). spec_local_import E w a s t))"
  proof (intro allI impI iffI)
    fix s
    assume s: "ImportDeclaration (Some s) \<in> set ?nodes" and "\<exists>t. spec_local_import E w a s t"
    then obtain t' where t': "import_target E w a (ImportDeclaration (Some s)) = Some t'"
      using spec_import_target by blast
    with s edges have "t' \<in> set (localImportAbsPaths info)" by blast
    with import_target_spec [OF t']
    show "\<exists>t \<in> set (localImportAbsPaths info). spec_local_import E w a s t" by blast
  qed blast
  have sound: "\<forall>t \<in> set (localImportAbsPaths info).
               \<exists>s. ImportDeclaration (Some s) \<in> set ?nodes \<and> spec_local_import E w a s t"
  proof
    fix t
    assume "t \<in> set (localImportAbsPaths info)"
    with edges obtain s where s: "ImportDeclaration (Some s) \<in> set ?nodes"
      "import_target E w a (ImportDeclaration (Some s)) = Some t"
      by blast
    from s(1) import_target_spec [OF s(2)]
    show "\<exists>s. ImportDeclaration (Some s) \<in> set ?nodes \<and> spec_local_import E w a s t"
      by blast
  qed
  have explored: "\<forall>t \<in> set (localImportAbsPaths info).
               d < m \<and> (\<exists>c. fs w t = Some (File c)) \<longrightarrow> map_has (fst ?r) t"
  proof (intro ballI impI, elim conjE exE)
    fix t c
    assume t: "t \<in> set (localImportAbsPaths info)" and dm: "d < m"
      and c: "fs w t = Some (File c)"
    show "map_has (fst ?r) t"
    proof (cases "t = a \<or> map_has disc t")
      case True
      then have "t \<in> set (map fst disc @ [a])" by (auto simp: map_has_keys)
      moreover have "map fst (fst ?st2) = map fst disc @ [a]"
        using scan_file_keys [of "(disc, w)" a E d content] assms(2) by simp
      ultimately have "map_has (fst ?st2) t"
        by (simp only: map_has_keys)
      with ext show ?thesis by (rule map_has_extends)
    next
      case False
      have "set (fst (snd ?sc)) = {r \<in> ?T. r \<noteq> a \<and> \<not> map_has disc r}"
        using scan_file_result(1) [of "(disc, w)" a E d content] assms(2) by simp
      with False t imps have "t \<in> set (uniq (fst (snd ?sc)))"
        by simp
      moreover have "\<not> m < d + 1" using dm by simp
      moreover have "fs (snd ?st2) t = Some (File c)" using c by (simp add: scan_file_fs)
      ultimately show ?thesis
        unfolding unf by (rule fold_discovery_records)
    qed
  qed
  have reach: "\<forall>k. map_has (fst ?r) k \<longrightarrow> map_has disc k \<or> reachable_within E w (nat (m - d)) a k"
    using performFileDiscovery_reach [of E a m d "(disc, w)"] by auto
  show ?thesis
    by (rule exI [of _ info]) (intro conjI kept edges iff sound explored reach)
qed

subsection \<open>The discovery on the two small projects\<close>

theorem discovery_records_each_file_once_witness:
  "map fst (fst (performFileDiscovery (demo_env [] []) ''/proj/a.ts'' 5 0
                   ([], demo_world demo_cycle)))
     = [''/proj/a.ts'', ''/proj/b.ts'', ''/proj/c.ts'']
   \<and> reads_ok (trace (snd (performFileDiscovery (demo_env [] []) ''/proj/a.ts'' 5 0
                   ([], demo_world demo_cycle))))
     = [''/proj/a.ts'', ''/proj/b.ts'', ''/proj/c.ts'']
   \<and> map_has [(''/proj/a.ts'', \<lparr>relativePath = ''a.ts'', localImportAbsPaths = []\<rparr>)]
        ''/proj/a.ts''
   \<and> fst (performFileDiscovery (demo_env [] []) ''/proj/a.ts'' 5 1
           ([(''/proj/a.ts'', \<lparr>relativePath = ''a.ts'', localImportAbsPaths = []\<rparr>)],
            demo_world demo_cycle))
     = [(''/proj/a.ts'', \<lparr>relativePath = ''a.ts'', localImportAbsPaths = []\<rparr>)]
   \<and> read_attempts (trace (snd (performFileDiscovery (demo_env [] []) ''/proj/a.ts'' 5 1
           ([(''/proj/a.ts'', \<lparr>relativePath = ''a.ts'', localImportAbsPaths = []\<rparr>)],
            demo_world demo_cycle))))
     = []"
proof -
  let ?E = "demo_env [] []"
  let ?w = "demo_world demo_cycle"
  let ?r = "performFileDiscovery ?E ''/proj/a.ts'' 5 0 ([], ?w)"
  let ?seen = "[(''/proj/a.ts'', \<lparr>relativePath = ''a.ts'', localImportAbsPaths = []\<rparr>)]"
  have k: "map fst (fst ?r) = [''/proj/a.ts'', ''/proj/b.ts'', ''/proj/c.ts'']"
    by code_simp
  have d0: "distinct (map fst ([] :: discovered))" by simp
  from discovery_records_each_file_once [OF d0, where E = ?E and a = "''/proj/a.ts''"
      and m = 5 and d = 0 and w = ?w]
  obtain ks where "map fst (fst ?r) = map fst ([] :: discovered) @ ks"
    and "reads_ok (trace (snd ?r)) = reads_ok (trace ?w) @ ks"
    by blast
  with k have r: "reads_ok (trace (snd ?r)) = [''/proj/a.ts'', ''/proj/b.ts'', ''/proj/c.ts'']"
    by (simp add: demo_world_def)
  have m: "map_has ?seen ''/proj/a.ts''" by (simp add: map_has_def)
  have d1: "distinct (map fst ?seen)" by simp
  have t0: "read_attempts (trace ?w) = []" by (simp add: demo_world_def)
  from discovery_records_each_file_once [OF d1, where E = ?E and a = "''/proj/a.ts''"
      and m = 5 and d = 1 and w = ?w] m
  have "fst (performFileDiscovery ?E ''/proj/a.ts'' 5 1 (?seen, ?w)) = ?seen
      \<and> read_attempts (trace (snd (performFileDiscovery ?E ''/proj/a.ts'' 5 1 (?seen, ?w)))) = []"
    unfolding t0 by blast
  with k r m show ?thesis by (intro conjI) simp_all
qed

theorem discovery_depth_bound_witness:
  "\<not> reachable_within (demo_env [] []) (demo_world demo_diamond) (nat 1)
       ''/proj/seed.ts'' ''/proj/shared.ts''
   \<and> \<not> map_has (fst (performFileDiscovery (demo_env [] []) ''/proj/seed.ts'' 1 0
                        ([], demo_world demo_diamond))) ''/proj/shared.ts''
   \<and> performFileDiscovery (demo_env [] []) ''/proj/shared.ts'' 1 2 ([], demo_world demo_diamond)
     = ([], emit (Warn ''Maximum depth of 1 reached for shared.ts. Stopping further discovery on this path.'')
              (demo_world demo_diamond))"
proof -
  let ?E = "demo_env [] []"
  let ?w = "demo_world demo_diamond"
  have n: "\<not> reachable_within ?E ?w (nat 1) ''/proj/seed.ts'' ''/proj/shared.ts''"
    by code_simp
  have s: "show_int 1 = ''1''" by code_simp
  have p: "slash ?E (path_relative ?E (cwd ?E) ''/proj/shared.ts'') = ''shared.ts''"
    by code_simp
  from discovery_depth_bound [where m = 1 and d = 2 and E = ?E and a = "''/proj/shared.ts''"
      and disc = "[]" and w = ?w]
  have "performFileDiscovery ?E ''/proj/shared.ts'' 1 2 ([], ?w)
        = ([], emit (Warn (''Maximum depth of '' @ show_int 1 @ '' reached for '' @
                       slash ?E (path_relative ?E (cwd ?E) ''/proj/shared.ts'') @
                       ''. Stopping further discovery on this path.'')) ?w)"
    by simp
  then have w: "performFileDiscovery ?E ''/proj/shared.ts'' 1 2 ([], ?w)
     = ([], emit (Warn ''Maximum depth of 1 reached for shared.ts. Stopping further discovery on this path.'') ?w)"
    unfolding s p by simp
  from discovery_depth_bound [where m = 1 and d = 0 and E = ?E and a = "''/proj/seed.ts''"
      and disc = "[]" and w = ?w] n
  have "\<not> map_has (fst (performFileDiscovery ?E ''/proj/seed.ts'' 1 0 ([], ?w))) ''/proj/shared.ts''"
    by blast
  with n w show ?thesis by (intro conjI)
qed

theorem discovery_follows_local_imports_witness:
  "\<exists>info. map_of (fst (performFileDiscovery (demo_env [] []) ''/proj/b.ts'' 5 0
                           ([], demo_world demo_diamond))) ''/proj/b.ts'' = Some info
     \<and> set (localImportAbsPaths info) = {''/proj/shared.ts'', ''/proj/seed.ts''}
     \<and> spec_local_import (demo_env [] []) (demo_world demo_diamond) ''/proj/b.ts''
          ''./shared'' ''/proj/shared.ts''
     \<and> map_has (fst (performFileDiscovery (demo_env [] []) ''/proj/b.ts'' 5 0
                           ([], demo_world demo_diamond))) ''/proj/shared.ts''"
proof -
  let ?E = "demo_env [] []"
  let ?w = "demo_world demo_diamond"
  let ?r = "performFileDiscovery ?E ''/proj/b.ts'' 5 0 ([], ?w)"
  have f: "fs ?w ''/proj/b.ts''
            = Some (File ''import ./shared;import ./seed;import zod;import ./missing;type B = X'')"
    by (simp add: demo_world_def demo_diamond_def)
  have n: "\<not> map_has ([] :: discovered) ''/proj/b.ts''" by (simp add: map_has_def)
  have c: "map_of (fst ?r) ''/proj/b.ts''
            = Some \<lparr>relativePath = ''b.ts'',
                    localImportAbsPaths = [''/proj/shared.ts'', ''/proj/seed.ts'']\<rparr>"
    by code_simp
  have sp: "spec_local_import ?E ?w ''/proj/b.ts'' ''./shared'' ''/proj/shared.ts''"
    by code_simp
  have sh: "fs ?w ''/proj/shared.ts'' = Some (File ''type X = string'')"
    by (simp add: demo_world_def demo_diamond_def)
  from discovery_follows_local_imports [OF f n, where d = 0 and m = 5 and E = ?E]
  obtain info where i: "map_of (fst ?r) ''/proj/b.ts'' = Some info"
    and e: "\<forall>t \<in> set (localImportAbsPaths info).
               (0::int) < 5 \<and> (\<exists>c. fs ?w t = Some (File c)) \<longrightarrow> map_has (fst ?r) t"
    by auto
  from i c have info: "info = \<lparr>relativePath = ''b.ts'',
                    localImportAbsPaths = [''/proj/shared.ts'', ''/proj/seed.ts'']\<rparr>"
    by simp
  with e sh have "map_has (fst ?r) ''/proj/shared.ts''" by simp
  with i info sp show ?thesis by auto
qed

section \<open>Properties of the nested generation\<close>

lemma quiet_ext_refl [simp]: "quiet_ext w w"
  by (simp add: quiet_ext_def)

lemma quiet_ext_trans:
  assumes "quiet_ext a b" and "quiet_ext b c"
  shows "quiet_ext a c"
proof -
  from assms obtain t1 t2 where
    "trace b = trace a @ t1" "list_all quiet t1" "trace c = trace b @ t2" "list_all quiet t2"
    unfolding quiet_ext_def by blast
  then have "trace c = trace a @ (t1 @ t2) \<and> list_all quiet (t1 @ t2)" by simp
  then have "\<exists>tr. trace c = trace a @ tr \<and> list_all quiet tr" by blast
  moreover from assms have "\<forall>p. fs a p \<noteq> None \<longrightarrow> fs c p \<noteq> None"
    unfolding quiet_ext_def by blast
  moreover from assms have "\<forall>p. (\<exists>t. fs a p = Some (File t)) \<longrightarrow> (\<exists>t. fs c p = Some (File t))"
    unfolding quiet_ext_def by blast
  ultimately show ?thesis unfolding quiet_ext_def by blast
qed

lemma quiet_ext_emit: "quiet e \<Longrightarrow> quiet_ext w (emit e w)"
  by (simp add: quiet_ext_def)

lemma quiet_ext_emit_after: "quiet e \<Longrightarrow> quiet_ext w w' \<Longrightarrow> quiet_ext w (emit e w')"
  using quiet_ext_trans quiet_ext_emit by blast

lemma quiet_ext_readFile: "quiet_ext w (snd (readFile p w))"
  by (auto simp: readFile_def quiet_ext_emit split: option.splits fs_entry.splits)

lemma quiet_ext_outputFile: "quiet_ext w (outputFile p t w)"
  by (auto simp: outputFile_def quiet_ext_def)

lemma quiet_ext_fold_warn: "quiet_ext w (fold (\<lambda>e. emit (Warn e)) es w)"
proof (induction es arbitrary: w)
  case Nil
  show ?case by simp
next
  case (Cons e es)
  have "quiet_ext w (emit (Warn e) w)" by (simp add: quiet_ext_emit)
  with Cons [of "emit (Warn e) w"] show ?case
    using quiet_ext_trans by fastforce
qed

lemma quiet_ext_load_extra_files: "quiet_ext (snd acc) (snd (load_extra_files E p io acc))"
proof (cases "getImportPath E p (io_input io) \<noteq> ''/''")
  case False
  then show ?thesis by (simp add: load_extra_files_def)
next
  case True
  let ?r1 = "readFile (path_join E (cwd E) (io_input io)) (snd acc)"
  let ?a1 = "case fst ?r1 of
                     Some t \<Rightarrow>
                       (fst acc @ [\<lparr> vf_sourceText = t, vf_relativePath = io_input io \<rparr>], snd ?r1)
                   | None \<Rightarrow>
                       (fst acc,
                        emit (Spinner (SpinWarn
                          (''File '' @ dquote @ io_input io @ dquote @ '' not found''))) (snd ?r1))"
  let ?r2 = "readFile (path_join E (cwd E) (io_output io)) (snd ?a1)"
  have 1: "quiet_ext (snd acc) (snd ?a1)"
    using quiet_ext_readFile [of "snd acc" "path_join E (cwd E) (io_input io)"]
    by (auto split: option.splits intro: quiet_ext_emit_after)
  have 2: "quiet_ext (snd ?a1) (snd ?r2)" by (rule quiet_ext_readFile)
  have 3: "quiet_ext (snd ?r2) (snd (load_extra_files E p io acc))"
    using True
    by (auto simp: load_extra_files_def Let_def case_prod_beta quiet_ext_emit
        split: option.splits)
  from quiet_ext_trans [OF quiet_ext_trans [OF 1 2] 3] show ?thesis .
qed

lemma quiet_ext_fold_load_extra_files:
  "quiet_ext (snd acc) (snd (fold (load_extra_files E p) ios acc))"
proof (induction ios arbitrary: acc)
  case Nil
  show ?case by simp
next
  case (Cons io ios)
  from quiet_ext_load_extra_files [of acc E p io] Cons [of "load_extra_files E p io acc"]
  show ?case using quiet_ext_trans by fastforce
qed

lemma quiet_ext_validateGeneratedContent:
  "quiet_ext w (snd (validateGeneratedContent E cliFlags inPath outPath core opts ios w))"
proof -
  let ?w0 = "emit (Spinner (SpinStart ''Validating generated types'')) w"
  let ?acc = "fold (load_extra_files E inPath) ios ([], ?w0)"
  have "quiet_ext w ?w0" by (simp add: quiet_ext_emit)
  moreover have "quiet_ext ?w0 (snd ?acc)"
    using quiet_ext_fold_load_extra_files [of "([], ?w0)" E inPath ios] by simp
  ultimately have "quiet_ext w (snd ?acc)" by (rule quiet_ext_trans)
  then show ?thesis
    by (simp add: validateGeneratedContent_def Let_def case_prod_beta quiet_ext_emit_after)
qed

lemma quiet_ext_writeOutputFiles:
  "quiet_ext w (writeOutputFiles E outPath inPath core opts w)"
  unfolding writeOutputFiles_def Let_def
  by (auto intro: quiet_ext_trans [OF quiet_ext_outputFile quiet_ext_outputFile]
      quiet_ext_outputFile)

lemma quiet_ext_prepare:
  "quiet_ext w (snd (prepareGeneratorConfig E args fileConfig cliFlags ios w))"
proof -
  have "quiet_ext w w'" if "readFile p w = (r, w')" for p r w'
    using quiet_ext_readFile [of w p] that by simp
  then show ?thesis
    by (auto simp: prepareGeneratorConfig_def Let_def split: prod.splits option.splits)
qed

lemma quiet_ext_generate:
  "quiet_ext w (snd (generate E args fileConfig cliFlags ios w))"
proof -
  obtain r w1 where p: "prepareGeneratorConfig E args fileConfig cliFlags ios w = (r, w1)"
    by (cases "prepareGeneratorConfig E args fileConfig cliFlags ios w")
  have q1: "quiet_ext w w1"
    using quiet_ext_prepare [of w E args fileConfig cliFlags ios] p by simp
  show ?thesis
  proof (cases r)
    case (Rejected e)
    with p q1 show ?thesis by (simp add: generate_def)
  next
    case (Resolved sr)
    show ?thesis
    proof (cases sr)
      case (Failure e)
      with p q1 Resolved show ?thesis by (simp add: generate_def)
    next
      case (Success d)
      let ?ex = "executeCoreGeneration E (generateOptions d)
                   (truthy (js_or (arg_output args) (map_option cfg_output fileConfig)))"
      show ?thesis
      proof (cases ?ex)
        case (Failure e)
        with p q1 Resolved Success show ?thesis by (simp add: generate_def)
      next
        case (Success core)
        let ?w2 = "fold (\<lambda>e. emit (Warn e)) (errors core) w1"
        have q2: "quiet_ext w ?w2"
          using q1 quiet_ext_fold_warn by (rule quiet_ext_trans)
        let ?v = "validateGeneratedContent E cliFlags (inputPath d) (outputPath d) core
                    (generateOptions d) ios ?w2"
        have q3: "quiet_ext w (snd ?v)"
          using q2 quiet_ext_validateGeneratedContent by (rule quiet_ext_trans)
        have q4: "quiet_ext w (writeOutputFiles E (outputPath d) (inputPath d) core
                    (generateOptions d) (snd ?v))"
          using q3 quiet_ext_writeOutputFiles by (rule quiet_ext_trans)
        have q5: "quiet_ext w (writeOutputFiles E (outputPath d) (inputPath d) core
                    (generateOptions d) ?w2)"
          using q2 quiet_ext_writeOutputFiles by (rule quiet_ext_trans)
        from p Resolved \<open>sr = Success d\<close> Success q3 q4 q5 show ?thesis
          by (auto simp: generate_def Let_def split: prod.splits step_result.splits)
      qed
    qed
  qed
qed

subsection \<open>The configs of the discovered files\<close>

lemma update_new_key:
  "k \<notin> set (map fst al) \<Longrightarrow> AList.update k v al = al @ [(k, v)]"
  by (induction al) auto

lemma fold_update_distinct:
  assumes "distinct (map fst xs)" and "set (map fst acc) \<inter> set (map fst xs) = {}"
  shows "fold (\<lambda>entry m. AList.update (fst entry) (g entry) m) xs acc
           = acc @ map (\<lambda>entry. (fst entry, g entry)) xs"
  using assms
proof (induction xs arbitrary: acc)
  case Nil
  show ?case by simp
next
  case (Cons x xs)
  from Cons.prems have new: "fst x \<notin> set (map fst acc)" by auto
  have "fold (\<lambda>entry m. AList.update (fst entry) (g entry) m) xs (acc @ [(fst x, g x)])
          = (acc @ [(fst x, g x)]) @ map (\<lambda>entry. (fst entry, g entry)) xs"
    using Cons.prems by (intro Cons.IH) auto
  then show ?case by (simp add: update_new_key [OF new])
qed

lemma allConfigsToGenerate_distinct:
  assumes "distinct (map fst disc)"
  shows "allConfigsToGenerate cliFlags disc = map (nested_config cliFlags disc) disc"
  using fold_update_distinct [OF assms, of "[]" "nested_config cliFlags disc"]
  by (simp add: allConfigsToGenerate_def configsForGeneration_def comp_def)

lemma set_fold_dependencies:
  "set (fold (\<lambda>i deps. if P i then set_add i deps else deps) xs acc)
     = set acc \<union> {i \<in> set xs. P i}"
  by (induction xs arbitrary: acc) auto

lemma set_resolved_dependencies:
  "set (resolved_dependencies disc info)
     = {i \<in> set (localImportAbsPaths info). map_has disc i}"
  by (simp add: resolved_dependencies_def set_fold_dependencies)

lemma endsWith_iff: "endsWith s p \<longleftrightarrow> (\<exists>r. s = r @ p)"
proof
  assume "endsWith s p"
  then have "s = take (length s - length p) s @ p"
    by (metis append_take_drop_id endsWith_def)
  then show "\<exists>r. s = r @ p" ..
next
  assume "\<exists>r. s = r @ p"
  then show "endsWith s p" by (auto simp: endsWith_def)
qed

lemma replace_ts_ext_ts: "replace_ts_ext (b @ ''.ts'') = b @ ''.zod.ts''"
proof -
  have "\<not> endsWith (b @ ''.ts'') ''.tsx''"
  proof
    assume "endsWith (b @ ''.ts'') ''.tsx''"
    then obtain r where "b @ ''.ts'' = r @ ''.tsx''" unfolding endsWith_iff ..
    then have "rev (b @ ''.ts'') = rev (r @ ''.tsx'')" by simp
    then show False by simp
  qed
  then show ?thesis by (simp add: replace_ts_ext_def)
qed

lemma replace_ts_ext_tsx: "replace_ts_ext (b @ ''.tsx'') = b @ ''.zod.ts''"
  by (simp add: replace_ts_ext_def)

lemma replace_ts_ext_other:
  "\<not> endsWith p ''.ts'' \<Longrightarrow> \<not> endsWith p ''.tsx'' \<Longrightarrow> replace_ts_ext p = p"
  by (simp add: replace_ts_ext_def)

text \<open>
  C10. For the map that discovery from a seed returns, the configs of the nested
  generation are one per discovered file, in the order of discovery. The config of a file
  has the file's relative path as input and that path with a final \<open>.ts\<close> or \<open>.tsx\<close>
  replaced by \<open>.zod.ts\<close> as output; it carries the \<open>keepComments\<close> flag (false when
  the flag is not given) and the \<open>skipParseJSDoc\<close> flag and nothing else. Its
  dependencies are the file's recorded imports that are themselves discovered files, so
  every dependency is the id of a config of the generation.
\<close>

theorem nested_configs:
  assumes "disc = fst (performFileDiscovery E seed m 0 ([], w))"
  shows "map dc_id (allConfigsToGenerate cliFlags disc) = map fst disc
       \<and> (\<forall>entry \<in> set disc.
             \<exists>item \<in> set (allConfigsToGenerate cliFlags disc).
                dc_id item = fst entry
              \<and> dc_config item =
                  \<lparr> cfg_name = None,
                    cfg_input = relativePath (snd entry),
                    cfg_output = replace_ts_ext (relativePath (snd entry)),
                    cfg_nameFilter = None,
                    cfg_jsDocTagFilter = None,
                    cfg_getSchemaName = None,
                    cfg_keepComments = Some (case keepComments cliFlags of None \<Rightarrow> False | Some b \<Rightarrow> b),
                    cfg_skipParseJSDoc = Some (skipParseJSDoc cliFlags),
                    cfg_inferredTypes = None,
                    cfg_customJSDocFormatTypes = None \<rparr>
              \<and> set (dependencies item)
                  = set (localImportAbsPaths (snd entry)) \<inter> set (map fst disc))
       \<and> (\<forall>item \<in> set (allConfigsToGenerate cliFlags disc).
             (\<forall>b. cfg_input (dc_config item) = b @ ''.ts''
                   \<longrightarrow> cfg_output (dc_config item) = b @ ''.zod.ts'')
           \<and> (\<forall>b. cfg_input (dc_config item) = b @ ''.tsx''
                   \<longrightarrow> cfg_output (dc_config item) = b @ ''.zod.ts'')
           \<and> set (dependencies item) \<subseteq> dc_id ` set (allConfigsToGenerate cliFlags disc))"
proof -
  have "discovery_extends ([], w) (performFileDiscovery E seed m 0 ([], w))"
    by (rule performFileDiscovery_extends)
  then have d: "distinct (map fst disc)"
    by (simp add: discovery_extends_def assms)
  note eq = allConfigsToGenerate_distinct [OF d, of cliFlags]
  have ids: "map dc_id (allConfigsToGenerate cliFlags disc) = map fst disc"
    by (simp add: eq nested_config_def comp_def)
  have deps: "set (dependencies (nested_config cliFlags disc entry))
                = set (localImportAbsPaths (snd entry)) \<inter> set (map fst disc)" for entry
    by (auto simp: nested_config_def set_resolved_dependencies map_has_keys)
  have entries: "\<forall>entry \<in> set disc.
             \<exists>item \<in> set (allConfigsToGenerate cliFlags disc).
                dc_id item = fst entry
              \<and> dc_config item =
                  \<lparr> cfg_name = None,
                    cfg_input = relativePath (snd entry),
                    cfg_output = replace_ts_ext (relativePath (snd entry)),
                    cfg_nameFilter = None,
                    cfg_jsDocTagFilter = None,
                    cfg_getSchemaName = None,
                    cfg_keepComments = Some (case keepComments cliFlags of None \<Rightarrow> False | Some b \<Rightarrow> b),
                    cfg_skipParseJSDoc = Some (skipParseJSDoc cliFlags),
                    cfg_inferredTypes = None,
                    cfg_customJSDocFormatTypes = None \<rparr>
              \<and> set (dependencies item)
                  = set (localImportAbsPaths (snd entry)) \<inter> set (map fst disc)"
  proof
    fix entry
    assume "entry \<in> set disc"
    then have "nested_config cliFlags disc entry \<in> set (allConfigsToGenerate cliFlags disc)"
      by (simp add: eq)
    moreover have "dc_id (nested_config cliFlags disc entry) = fst entry"
      by (simp add: nested_config_def)
    moreover have "dc_config (nested_config cliFlags disc entry) =
                  \<lparr> cfg_name = None,
                    cfg_input = relativePath (snd entry),
                    cfg_output = replace_ts_ext (relativePath (snd entry)),
                    cfg_nameFilter = None,
                    cfg_jsDocTagFilter = None,
                    cfg_getSchemaName = None,
                    cfg_keepComments = Some (case keepComments cliFlags of None \<Rightarrow> False | Some b \<Rightarrow> b),
                    cfg_skipParseJSDoc = Some (skipParseJSDoc cliFlags),
                    cfg_inferredTypes = None,
                    cfg_customJSDocFormatTypes = None \<rparr>"
      by (simp add: nested_config_def or_false_def)
    ultimately show "\<exists>item \<in> set (allConfigsToGenerate cliFlags disc).
                dc_id item = fst entry
              \<and> dc_config item =
                  \<lparr> cfg_name = None,
                    cfg_input = relativePath (snd entry),
                    cfg_output = replace_ts_ext (relativePath (snd entry)),
                    cfg_nameFilter = None,
                    cfg_jsDocTagFilter = None,
                    cfg_getSchemaName = None,
                    cfg_keepComments = Some (case keepComments cliFlags of None \<Rightarrow> False | Some b \<Rightarrow> b),
                    cfg_skipParseJSDoc = Some (skipParseJSDoc cliFlags),
                    cfg_inferredTypes = None,
                    cfg_customJSDocFormatTypes = None \<rparr>
              \<and> set (dependencies item)
                  = set (localImportAbsPaths (snd entry)) \<inter> set (map fst disc)"
      using deps [of entry] by blast
  qed
  have items: "\<forall>item \<in> set (allConfigsToGenerate cliFlags disc).
             (\<forall>b. cfg_input (dc_config item) = b @ ''.ts''
                   \<longrightarrow> cfg_output (dc_config item) = b @ ''.zod.ts'')
           \<and> (\<forall>b. cfg_input (dc_config item) = b @ ''.tsx''
                   \<longrightarrow> cfg_output (dc_config item) = b @ ''.zod.ts'')
           \<and> set (dependencies item) \<subseteq> dc_id ` set (allConfigsToGenerate cliFlags disc)"
  proof
    fix item
    assume "item \<in> set (allConfigsToGenerate cliFlags disc)"
    then obtain entry where e: "entry \<in> set disc" and i: "item = nested_config cliFlags disc entry"
      by (auto simp: eq)
    have io: "cfg_output (dc_config item) = replace_ts_ext (cfg_input (dc_config item))"
      by (simp add: i nested_config_def)
    have "set (dependencies item) \<subseteq> set (map fst disc)"
      using deps [of entry] i by simp
    also have "set (map fst disc) = dc_id ` set (allConfigsToGenerate cliFlags disc)"
      using ids by (metis set_map)
    finally show "(\<forall>b. cfg_input (dc_config item) = b @ ''.ts''
                   \<longrightarrow> cfg_output (dc_config item) = b @ ''.zod.ts'')
           \<and> (\<forall>b. cfg_input (dc_config item) = b @ ''.tsx''
                   \<longrightarrow> cfg_output (dc_config item) = b @ ''.zod.ts'')
           \<and> set (dependencies item) \<subseteq> dc_id ` set (allConfigsToGenerate cliFlags disc)"
      by (simp add: io replace_ts_ext_ts replace_ts_ext_tsx)
  qed
  show ?thesis by (intro conjI ids entries items)
qed

theorem nested_configs_witness:
  "allConfigsToGenerate demo_flags
     (fst (performFileDiscovery (demo_env [] []) ''/proj/seed.ts'' 1 0 ([], demo_world demo_diamond)))
   = [\<lparr> dc_id = ''/proj/seed.ts'',
        dc_config = \<lparr> cfg_name = None, cfg_input = ''seed.ts'', cfg_output = ''seed.zod.ts'',
          cfg_nameFilter = None, cfg_jsDocTagFilter = None, cfg_getSchemaName = None,
          cfg_keepComments = Some False, cfg_skipParseJSDoc = Some False,
          cfg_inferredTypes = None, cfg_customJSDocFormatTypes = None \<rparr>,
        dependencies = [''/proj/a.ts'', ''/proj/b.ts''] \<rparr>,
      \<lparr> dc_id = ''/proj/a.ts'',
        dc_config = \<lparr> cfg_name = None, cfg_input = ''a.ts'', cfg_output = ''a.zod.ts'',
          cfg_nameFilter = None, cfg_jsDocTagFilter = None, cfg_getSchemaName = None,
          cfg_keepComments = Some False, cfg_skipParseJSDoc = Some False,
          cfg_inferredTypes = None, cfg_customJSDocFormatTypes = None \<rparr>,
        dependencies = [] \<rparr>,
      \<lparr> dc_id = ''/proj/b.ts'',
        dc_config = \<lparr> cfg_name = None, cfg_input = ''b.ts'', cfg_output = ''b.zod.ts'',
          cfg_nameFilter = None, cfg_jsDocTagFilter = None, cfg_getSchemaName = None,
          cfg_keepComments = Some False, cfg_skipParseJSDoc = Some False,
          cfg_inferredTypes = None, cfg_customJSDocFormatTypes = None \<rparr>,
        dependencies = [''/proj/seed.ts''] \<rparr>]"
proof -
  let ?disc = "fst (performFileDiscovery (demo_env [] []) ''/proj/seed.ts'' 1 0
                      ([], demo_world demo_diamond))"
  have disc: "?disc =
      [(''/proj/seed.ts'', \<lparr>relativePath = ''seed.ts'',
          localImportAbsPaths = [''/proj/a.ts'', ''/proj/b.ts'']\<rparr>),
       (''/proj/a.ts'', \<lparr>relativePath = ''a.ts'', localImportAbsPaths = [''/proj/shared.ts'']\<rparr>),
       (''/proj/b.ts'', \<lparr>relativePath = ''b.ts'',
          localImportAbsPaths = [''/proj/shared.ts'', ''/proj/seed.ts'']\<rparr>)]"
    by code_simp
  from nested_configs [OF refl, of demo_flags "demo_env [] []" "''/proj/seed.ts''" 1
      "demo_world demo_diamond"]
  have "map dc_id (allConfigsToGenerate demo_flags ?disc) = map fst ?disc"
    by (rule conjunct1)
  moreover have "allConfigsToGenerate demo_flags ?disc = map (nested_config demo_flags ?disc) ?disc"
    unfolding disc by (rule allConfigsToGenerate_distinct) simp
  ultimately show ?thesis
    unfolding disc
    by (simp add: nested_config_def resolved_dependencies_def map_has_def set_add_def
        demo_flags_def or_false_def replace_ts_ext_def endsWith_def)
qed


lemma deps_ok_append:
  "deps_ok D added (xs @ ys) \<longleftrightarrow> deps_ok D added xs \<and> deps_ok D (added_ids xs @ added) ys"
  by (induction D added xs rule: deps_ok.induct) auto

lemma pending_after_append:
  "pending_after p (xs @ ys) = pending_after (pending_after p xs) ys"
  by (induction p xs rule: pending_after.induct) auto

lemma batches_wait_append:
  "batches_wait p (xs @ ys) \<longleftrightarrow> batches_wait p xs \<and> batches_wait (pending_after p xs) ys"
  by (induction p xs rule: batches_wait.induct) auto

lemma added_ids_append: "added_ids (xs @ ys) = added_ids ys @ added_ids xs"
  by (induction xs rule: added_ids.induct) auto

lemma quiet_scan:
  assumes "list_all quiet tr"
  shows "deps_ok D added tr" and "added_ids tr = []" and "pending_after p tr = p"
    and "batches_wait p tr"
  using assms
proof (induction tr)
  case Nil
  { case 1 show ?case by simp }
  { case 2 show ?case by simp }
  { case 3 show ?case by simp }
  { case 4 show ?case by simp }
next
  case (Cons e tr)
  { case 1 with Cons.IH(1) show ?case by (cases e) simp_all }
  { case 2 with Cons.IH(2) show ?case by (cases e) simp_all }
  { case 3 with Cons.IH(3) show ?case by (cases e) simp_all }
  { case 4 with Cons.IH(4) show ?case by (cases e) simp_all }
qed

lemma not_batch_log_done [simp]: "\<not> is_batch_log (party_popper @ s)"
  by (simp add: is_batch_log_def startsWith_def party_popper_def)

lemma not_batch_log_start [simp]: "\<not> is_batch_log (''Generating for '' @ s)"
  by (simp add: is_batch_log_def startsWith_def)

lemma not_batch_log_empty [simp]: "\<not> is_batch_log []"
  by (simp add: is_batch_log_def startsWith_def)

lemma settle_item_cases:
  obtains (ok) w2 q where
      "generate E \<lparr>arg_input = None, arg_output = None\<rparr> (Some (dc_config item)) cliFlags ios w
         = (Resolved (Success ()), w2)"
      "trace w2 = trace w @ q" "list_all quiet q"
      "settle_item E cliFlags ios item g w =
         (None, set_add (dc_id item) g,
          emit (GeneratedAdded (dc_id item))
            (emit (Log (party_popper @ '' Zod schemas generated for '' @
                        cfg_output (dc_config item) @ ''!'')) w2))"
  | (failed) e w2 q where
      "trace w2 = trace w @ q" "list_all quiet q"
      "settle_item E cliFlags ios item g w = (Some e, g, w2)"
proof -
  let ?g = "generate E \<lparr>arg_input = None, arg_output = None\<rparr> (Some (dc_config item)) cliFlags ios w"
  obtain r w2 where g: "?g = (r, w2)" by (cases ?g)
  from quiet_ext_generate [of w E "\<lparr>arg_input = None, arg_output = None\<rparr>"
      "Some (dc_config item)" cliFlags ios] g
  obtain q where q: "trace w2 = trace w @ q" "list_all quiet q"
    by (auto simp: quiet_ext_def)
  show ?thesis
  proof (cases r)
    case (Rejected e)
    with g have "settle_item E cliFlags ios item g w = (Some e, g, w2)"
      by (simp add: settle_item_def)
    with q show ?thesis by (rule failed)
  next
    case (Resolved sr)
    show ?thesis
    proof (cases sr)
      case (Failure e)
      with g Resolved have "settle_item E cliFlags ios item g w
          = (Some (''Error generating for '' @ cfg_input (dc_config item) @ '': '' @ e), g, w2)"
        by (simp add: settle_item_def)
      with q show ?thesis by (rule failed)
    next
      case (Success u)
      with g Resolved have g': "?g = (Resolved (Success ()), w2)" by simp
      then have "settle_item E cliFlags ios item g w =
         (None, set_add (dc_id item) g,
          emit (GeneratedAdded (dc_id item))
            (emit (Log (party_popper @ '' Zod schemas generated for '' @
                        cfg_output (dc_config item) @ ''!'')) w2))"
        by (simp add: settle_item_def)
      with g' q show ?thesis by (rule ok)
    qed
  qed
qed

text \<open>What the settling of a batch adds to the trace.\<close>

lemma settle_batch_trace:
  "\<exists>tr. trace (snd (snd (settle_batch E cliFlags ios items g w))) = trace w @ tr
      \<and> (\<forall>D a. deps_ok D a tr)
      \<and> (\<forall>p. batches_wait p tr)
      \<and> (fst (settle_batch E cliFlags ios items g w) = None \<longrightarrow>
            set (fst (snd (settle_batch E cliFlags ios items g w))) = set g \<union> dc_id ` set items
          \<and> set (added_ids tr) = dc_id ` set items
          \<and> (\<forall>p. set (pending_after p tr) = set p - dc_id ` set items))"
proof (induction items arbitrary: g w)
  case Nil
  show ?case by simp
next
  case (Cons item items)
  show ?case
  proof (cases rule: settle_item_cases [of E item cliFlags ios w g])
    case (failed e w2 q)
    then show ?thesis
      by (auto simp: quiet_scan)
  next
    case (ok w2 q)
    define w3 where "w3 = emit (GeneratedAdded (dc_id item))
            (emit (Log (party_popper @ '' Zod schemas generated for '' @
                        cfg_output (dc_config item) @ ''!'')) w2)"
    define g1 where "g1 = set_add (dc_id item) g"
    define t1 where "t1 = q @ [Log (party_popper @ '' Zod schemas generated for '' @
                        cfg_output (dc_config item) @ ''!''), GeneratedAdded (dc_id item)]"
    define res where "res = settle_batch E cliFlags ios items g1 w3"
    have s: "settle_batch E cliFlags ios (item # items) g w = res"
      using ok(4) by (simp add: w3_def g1_def res_def)
    have t1: "trace w3 = trace w @ t1" using ok(2) by (simp add: w3_def t1_def)
    have g1: "set g1 = insert (dc_id item) (set g)" by (simp add: g1_def)
    have d1: "deps_ok D a t1" for D a
      using ok(3) by (simp add: t1_def deps_ok_append quiet_scan)
    have a1: "added_ids t1 = [dc_id item]"
      using ok(3) by (simp add: t1_def added_ids_append quiet_scan)
    have p1: "pending_after p t1 = removeAll (dc_id item) p" for p
      using ok(3) by (simp add: t1_def pending_after_append quiet_scan)
    have b1: "batches_wait p t1" for p
      using ok(3) by (simp add: t1_def batches_wait_append quiet_scan)
    from Cons.IH [of g1 w3, folded res_def] obtain tr where
      tr: "trace (snd (snd res)) = trace w3 @ tr"
      and d: "\<forall>D a. deps_ok D a tr" and b: "\<forall>p. batches_wait p tr"
      and n: "fst res = None \<longrightarrow>
            set (fst (snd res)) = set g1 \<union> dc_id ` set items
          \<and> set (added_ids tr) = dc_id ` set items
          \<and> (\<forall>p. set (pending_after p tr) = set p - dc_id ` set items)"
      by (elim exE conjE) (rule that; assumption)
    show ?thesis
      unfolding s
    proof (intro exI [of _ "t1 @ tr"] conjI allI impI)
      show "trace (snd (snd res)) = trace w @ t1 @ tr"
        unfolding tr t1 by simp
      show "deps_ok D a (t1 @ tr)" for D a
        using d d1 [of D a] unfolding deps_ok_append by blast
      show "batches_wait p (t1 @ tr)" for p
        using b b1 [of p] unfolding batches_wait_append by blast
    next
      assume n': "fst res = None"
      show "set (fst (snd res)) = set g \<union> dc_id ` set (item # items)"
        using n n' g1 by auto
      show "set (added_ids (t1 @ tr)) = dc_id ` set (item # items)"
        using n n' unfolding added_ids_append a1 by auto
      show "set (pending_after p (t1 @ tr)) = set p - dc_id ` set (item # items)" for p
        using n n' unfolding pending_after_append p1 by auto
    qed
  qed
qed

lemma fold_start_item_trace:
  "trace (fold start_item batch w) = trace w @ concat (map start_events batch)"
  by (induction batch arbitrary: w) (simp_all add: start_item_def start_events_def)

lemma fold_start_item_fs [simp]: "fs (fold start_item batch w) = fs w"
  by (induction batch arbitrary: w) (simp_all add: start_item_def)


text \<open>The four ways through one round of the loop.\<close>

lemma generation_loop_done:
  "generation_loop E cliFlags ios [] generated n w = (None, n, w)"
  by (simp add: generation_loop.simps)

lemma generation_loop_deadlock:
  "queue \<noteq> [] \<Longrightarrow> batchToGenerate queue generated = [] \<Longrightarrow>
     generation_loop E cliFlags ios queue generated n w
       = (Some (order_error queue), n, emit (ErrorExit (order_error queue)) w)"
  by (simp add: generation_loop.simps)

lemma generation_loop_failed:
  assumes "queue \<noteq> []" and "batchToGenerate queue generated \<noteq> []"
    and "fst (run_batch E cliFlags ios (batchToGenerate queue generated) generated
                (emit (batch_log (batchToGenerate queue generated)) w)) = Some e"
  shows "generation_loop E cliFlags ios queue generated n w
       = (Some (''Error during batch generation: '' @ e), n,
          emit (ErrorExit (''Error during batch generation: '' @ e))
            (snd (snd (run_batch E cliFlags ios (batchToGenerate queue generated) generated
                (emit (batch_log (batchToGenerate queue generated)) w)))))"
  using assms by (simp add: generation_loop.simps [of E cliFlags ios queue] Let_def batch_log_def)

lemma generation_loop_next:
  assumes "queue \<noteq> []" and "batchToGenerate queue generated \<noteq> []"
    and "fst (run_batch E cliFlags ios (batchToGenerate queue generated) generated
                (emit (batch_log (batchToGenerate queue generated)) w)) = None"
  shows "generation_loop E cliFlags ios queue generated n w
       = generation_loop E cliFlags ios
           (remove_batch (batchToGenerate queue generated) queue)
           (fst (snd (run_batch E cliFlags ios (batchToGenerate queue generated) generated
                (emit (batch_log (batchToGenerate queue generated)) w))))
           (n + length (batchToGenerate queue generated))
           (if remove_batch (batchToGenerate queue generated) queue \<noteq> []
            then emit (Log [])
                   (snd (snd (run_batch E cliFlags ios (batchToGenerate queue generated) generated
                      (emit (batch_log (batchToGenerate queue generated)) w))))
            else snd (snd (run_batch E cliFlags ios (batchToGenerate queue generated) generated
                      (emit (batch_log (batchToGenerate queue generated)) w))))"
  using assms by (simp add: generation_loop.simps [of E cliFlags ios queue] Let_def batch_log_def)






lemma keeps_files_refl [simp]: "keeps_files w w"
  by (simp add: keeps_files_def)

lemma keeps_files_trans: "keeps_files a b \<Longrightarrow> keeps_files b c \<Longrightarrow> keeps_files a c"
  by (simp add: keeps_files_def)

lemma keeps_files_emit [simp]: "keeps_files w (emit e w)"
  by (simp add: keeps_files_def)

lemma keeps_files_same: "fs w' = fs w \<Longrightarrow> keeps_files w w'"
  by (simp add: keeps_files_def)

lemma keeps_files_quiet_ext: "quiet_ext w w' \<Longrightarrow> keeps_files w w'"
  by (simp add: keeps_files_def quiet_ext_def)

lemma settle_item_keeps: "keeps_files w (snd (snd (settle_item E cliFlags ios item g w)))"
proof -
  let ?gen = "generate E \<lparr>arg_input = None, arg_output = None\<rparr> (Some (dc_config item))
                cliFlags ios w"
  have k: "keeps_files w (snd ?gen)"
    by (intro keeps_files_quiet_ext quiet_ext_generate)
  obtain r w2 where g: "?gen = (r, w2)" by (cases ?gen)
  with k have k2: "keeps_files w w2" by simp
  then have "keeps_files w (emit e1 (emit e2 w2))" for e1 e2
    by (simp add: keeps_files_def)
  with k2 g show ?thesis
    by (simp add: settle_item_def split: promise.splits step_result.splits)
qed

lemma settle_batch_keeps: "keeps_files w (snd (snd (settle_batch E cliFlags ios items g w)))"
proof (induction items arbitrary: g w)
  case Nil
  show ?case by simp
next
  case (Cons item items)
  obtain e g1 w1 where s: "settle_item E cliFlags ios item g w = (e, g1, w1)"
    by (cases "settle_item E cliFlags ios item g w")
  with settle_item_keeps [of w E cliFlags ios item g] have k: "keeps_files w w1" by simp
  show ?case
  proof (cases e)
    case None
    with s k Cons.IH [of w1 g1] show ?thesis
      by (auto intro: keeps_files_trans)
  next
    case (Some m)
    with s k show ?thesis by simp
  qed
qed

lemma run_batch_keeps: "keeps_files w (snd (snd (run_batch E cliFlags ios batch g w)))"
proof -
  have "keeps_files w (fold start_item batch w)"
    by (rule keeps_files_same) simp
  then show ?thesis
    unfolding run_batch_def using settle_batch_keeps by (rule keeps_files_trans)
qed

lemma generation_loop_keeps:
  "keeps_files w (snd (snd (generation_loop E cliFlags ios queue generated n w)))"
proof (induction E cliFlags ios queue generated n w rule: generation_loop.induct)
  case (1 E cliFlags ios queue generated n w)
  define batch where "batch = batchToGenerate queue generated"
  define w1 where "w1 = emit (batch_log batch) w"
  define r where "r = run_batch E cliFlags ios batch generated w1"
  have kr: "keeps_files w (snd (snd r))"
    unfolding r_def w1_def
    by (rule keeps_files_trans [OF keeps_files_emit run_batch_keeps])
  consider "queue = []" | "queue \<noteq> []" "batch = []"
    | e where "queue \<noteq> []" "batch \<noteq> []" "fst r = Some e"
    | "queue \<noteq> []" "batch \<noteq> []" "fst r = None"
    by (cases "fst r") auto
  then show ?case
  proof cases
    case 1
    then show ?thesis by (simp add: generation_loop_done)
  next
    case 2
    then show ?thesis by (simp add: generation_loop_deadlock batch_def)
  next
    case 3
    have "generation_loop E cliFlags ios queue generated n w
       = (Some (''Error during batch generation: '' @ e), n,
          emit (ErrorExit (''Error during batch generation: '' @ e)) (snd (snd r)))"
      using 3 unfolding r_def w1_def batch_def by (intro generation_loop_failed) simp_all
    with kr show ?thesis
      by (simp add: keeps_files_def)
  next
    case 4
    define queue' where "queue' = remove_batch batch queue"
    define w3 where "w3 = (if queue' \<noteq> [] then emit (Log []) (snd (snd r)) else snd (snd r))"
    have res: "generation_loop E cliFlags ios queue generated n w
       = generation_loop E cliFlags ios queue' (fst (snd r)) (n + length batch) w3"
      using 4 unfolding r_def w1_def batch_def queue'_def w3_def
      by (intro generation_loop_next) simp_all
    have k3: "keeps_files w w3"
      using kr by (simp add: w3_def keeps_files_def)
    have "keeps_files w3 (snd (snd (generation_loop E cliFlags ios queue' (fst (snd r))
                     (n + length batch) w3)))"
      using "1.IH" [of batch w1 r, folded queue'_def, folded w3_def] 4
      unfolding batch_def r_def w1_def batch_log_def
      by blast
    with k3 show ?thesis
      unfolding res by (rule keeps_files_trans)
  qed
qed

lemma run_batch_extends:
  "\<exists>tr. trace (snd (snd (run_batch E cliFlags ios batch g w))) = trace w @ tr"
  using settle_batch_trace [of E cliFlags ios batch g "fold start_item batch w"]
  unfolding run_batch_def fold_start_item_trace by auto

lemma generation_loop_extends:
  "\<exists>tr. trace (snd (snd (generation_loop E cliFlags ios queue generated n w))) = trace w @ tr"
proof (induction E cliFlags ios queue generated n w rule: generation_loop.induct)
  case (1 E cliFlags ios queue generated n w)
  define batch where "batch = batchToGenerate queue generated"
  define w1 where "w1 = emit (batch_log batch) w"
  define r where "r = run_batch E cliFlags ios batch generated w1"
  from run_batch_extends [of E cliFlags ios batch generated w1]
  obtain tr where tr: "trace (snd (snd r)) = trace w @ batch_log batch # tr"
    unfolding r_def w1_def by auto
  consider "queue = []" | "queue \<noteq> []" "batch = []"
    | e where "queue \<noteq> []" "batch \<noteq> []" "fst r = Some e"
    | "queue \<noteq> []" "batch \<noteq> []" "fst r = None"
    by (cases "fst r") auto
  then show ?case
  proof cases
    case 1
    then show ?thesis by (simp add: generation_loop_done)
  next
    case 2
    then show ?thesis by (simp add: generation_loop_deadlock batch_def)
  next
    case 3
    have "generation_loop E cliFlags ios queue generated n w
       = (Some (''Error during batch generation: '' @ e), n,
          emit (ErrorExit (''Error during batch generation: '' @ e)) (snd (snd r)))"
      using 3 unfolding r_def w1_def batch_def by (intro generation_loop_failed) simp_all
    with tr show ?thesis by simp
  next
    case 4
    define queue' where "queue' = remove_batch batch queue"
    define w3 where "w3 = (if queue' \<noteq> [] then emit (Log []) (snd (snd r)) else snd (snd r))"
    have res: "generation_loop E cliFlags ios queue generated n w
       = generation_loop E cliFlags ios queue' (fst (snd r)) (n + length batch) w3"
      using 4 unfolding r_def w1_def batch_def queue'_def w3_def
      by (intro generation_loop_next) simp_all
    have "trace w3 = trace w @ (batch_log batch # tr @ (if queue' \<noteq> [] then [Log []] else []))"
      using tr by (simp add: w3_def)
    then obtain tr3 where tr3: "trace w3 = trace w @ tr3" ..
    have "\<exists>tr. trace (snd (snd (generation_loop E cliFlags ios queue' (fst (snd r))
                     (n + length batch) w3))) = trace w3 @ tr"
      using "1.IH" [of batch w1 r, folded queue'_def, folded w3_def] 4
      unfolding batch_def r_def w1_def batch_log_def
      by blast
    then show ?thesis
      unfolding res tr3 by auto
  qed
qed

lemma set_remove_batch:
  "set (remove_batch batch queue) = {item \<in> set queue. dc_id item \<notin> dc_id ` set batch}"
  by (auto simp: remove_batch_def find_None_iff image_iff)

text \<open>
  C2. Every round of the loop, from any state with a queue that is not empty. The batch
  is exactly the queued configs whose dependencies are all in \<open>generatedConfigIds\<close>.
  When the batch is empty, the loop throws the error whose message lists the inputs of
  all queued configs, and its world is the world it was given plus that error. When the
  batch settles without a failure, it has added exactly its own ids to
  \<open>generatedConfigIds\<close>, and the loop goes on from that set of completed generations
  with the queue without the batch, so the next batch is formed from them. When a
  generation of the batch fails, the loop throws that error in the world the batch left.
  With an empty queue the loop returns. Whatever way the loop ends, no path of the file
  system is lost and the writes done before stay in the trace: nothing is rolled back.
\<close>

theorem nested_batch_scheduling:
  assumes "queue \<noteq> []"
  shows "set (batchToGenerate queue generated)
           = {item \<in> set queue. set (dependencies item) \<subseteq> set generated}
       \<and> (fst (run_batch E cliFlags ios (batchToGenerate queue generated) generated w') = None
            \<longrightarrow> set (fst (snd (run_batch E cliFlags ios (batchToGenerate queue generated)
                                   generated w')))
                  = set generated \<union> dc_id ` set (batchToGenerate queue generated))
       \<and> (batchToGenerate queue generated = [] \<longrightarrow>
            generation_loop E cliFlags ios queue generated n w
              = (Some (''Could not determine generation order. Possible circular dependency or missing files among: ''
                       @ js_join '', '' (map (\<lambda>item. cfg_input (dc_config item)) queue)
                       @ ''. Please check your imports.''),
                 n,
                 emit (ErrorExit
                   (''Could not determine generation order. Possible circular dependency or missing files among: ''
                    @ js_join '', '' (map (\<lambda>item. cfg_input (dc_config item)) queue)
                    @ ''. Please check your imports.'')) w))
       \<and> (batchToGenerate queue generated \<noteq> []
            \<and> fst (batch_round E cliFlags ios queue generated w) = None \<longrightarrow>
            generation_loop E cliFlags ios queue generated n w
              = generation_loop E cliFlags ios
                  (remove_batch (batchToGenerate queue generated) queue)
                  (fst (snd (batch_round E cliFlags ios queue generated w)))
                  (n + length (batchToGenerate queue generated))
                  (if remove_batch (batchToGenerate queue generated) queue \<noteq> []
                   then emit (Log []) (snd (snd (batch_round E cliFlags ios queue generated w)))
                   else snd (snd (batch_round E cliFlags ios queue generated w))))
       \<and> (\<forall>e. batchToGenerate queue generated \<noteq> []
            \<and> fst (batch_round E cliFlags ios queue generated w) = Some e \<longrightarrow>
            generation_loop E cliFlags ios queue generated n w
              = (Some (''Error during batch generation: '' @ e), n,
                 emit (ErrorExit (''Error during batch generation: '' @ e))
                   (snd (snd (batch_round E cliFlags ios queue generated w)))))
       \<and> set (remove_batch (batchToGenerate queue generated) queue)
           = {item \<in> set queue. dc_id item \<notin> dc_id ` set (batchToGenerate queue generated)}
       \<and> generation_loop E cliFlags ios [] generated n w = (None, n, w)
       \<and> (\<forall>p. fs w p \<noteq> None \<longrightarrow>
              fs (snd (snd (generation_loop E cliFlags ios queue generated n w))) p \<noteq> None)
       \<and> (\<exists>ws. writes (trace (snd (snd (generation_loop E cliFlags ios queue generated n w))))
                 = writes (trace w) @ ws)"
proof (intro conjI)
  show "set (batchToGenerate queue generated)
           = {item \<in> set queue. set (dependencies item) \<subseteq> set generated}"
    by (auto simp: batchToGenerate_def list_all_iff)
  show "fst (run_batch E cliFlags ios (batchToGenerate queue generated) generated w') = None
            \<longrightarrow> set (fst (snd (run_batch E cliFlags ios (batchToGenerate queue generated)
                                   generated w')))
                  = set generated \<union> dc_id ` set (batchToGenerate queue generated)"
    using settle_batch_trace [of E cliFlags ios "batchToGenerate queue generated" generated
        "fold start_item (batchToGenerate queue generated) w'"]
    unfolding run_batch_def by blast
  show "batchToGenerate queue generated = [] \<longrightarrow>
            generation_loop E cliFlags ios queue generated n w
              = (Some (''Could not determine generation order. Possible circular dependency or missing files among: ''
                       @ js_join '', '' (map (\<lambda>item. cfg_input (dc_config item)) queue)
                       @ ''. Please check your imports.''),
                 n,
                 emit (ErrorExit
                   (''Could not determine generation order. Possible circular dependency or missing files among: ''
                    @ js_join '', '' (map (\<lambda>item. cfg_input (dc_config item)) queue)
                    @ ''. Please check your imports.'')) w)"
    using assms generation_loop_deadlock [of queue generated E cliFlags ios n w]
    unfolding order_error_def by blast
  show "batchToGenerate queue generated \<noteq> []
            \<and> fst (batch_round E cliFlags ios queue generated w) = None \<longrightarrow>
            generation_loop E cliFlags ios queue generated n w
              = generation_loop E cliFlags ios
                  (remove_batch (batchToGenerate queue generated) queue)
                  (fst (snd (batch_round E cliFlags ios queue generated w)))
                  (n + length (batchToGenerate queue generated))
                  (if remove_batch (batchToGenerate queue generated) queue \<noteq> []
                   then emit (Log []) (snd (snd (batch_round E cliFlags ios queue generated w)))
                   else snd (snd (batch_round E cliFlags ios queue generated w)))"
    unfolding batch_round_def
    using generation_loop_next [OF assms, of generated E cliFlags ios w n] by blast
  show "\<forall>e. batchToGenerate queue generated \<noteq> []
            \<and> fst (batch_round E cliFlags ios queue generated w) = Some e \<longrightarrow>
            generation_loop E cliFlags ios queue generated n w
              = (Some (''Error during batch generation: '' @ e), n,
                 emit (ErrorExit (''Error during batch generation: '' @ e))
                   (snd (snd (batch_round E cliFlags ios queue generated w))))"
    unfolding batch_round_def
    using generation_loop_failed [OF assms, of generated E cliFlags ios w _ n] by blast
  show "set (remove_batch (batchToGenerate queue generated) queue)
           = {item \<in> set queue. dc_id item \<notin> dc_id ` set (batchToGenerate queue generated)}"
    by (rule set_remove_batch)
  show "generation_loop E cliFlags ios [] generated n w = (None, n, w)"
    by (rule generation_loop_done)
  show "\<forall>p. fs w p \<noteq> None \<longrightarrow>
              fs (snd (snd (generation_loop E cliFlags ios queue generated n w))) p \<noteq> None"
    using generation_loop_keeps [of w E cliFlags ios queue generated n]
    unfolding keeps_files_def .
  from generation_loop_extends [of E cliFlags ios queue generated n w]
  obtain tr where "trace (snd (snd (generation_loop E cliFlags ios queue generated n w)))
                     = trace w @ tr" ..
  then have "writes (trace (snd (snd (generation_loop E cliFlags ios queue generated n w))))
                 = writes (trace w) @ writes tr"
    by simp
  then show "\<exists>ws. writes (trace (snd (snd (generation_loop E cliFlags ios queue generated n w))))
                 = writes (trace w) @ ws" ..
qed


subsection \<open>The loop on the small projects\<close>


text \<open>
  The rounds on the small projects. On the first, the batch of \<open>c.ts\<close> leaves
  \<open>a.ts\<close> and \<open>b.ts\<close>, which wait for each other: the next batch is empty and the
  loop throws the error naming both, with the schemas of \<open>c.ts\<close> written and kept. On
  the third, the first round generates \<open>base.ts\<close> and the loop goes on with its id as
  generated, so that the next batch is \<open>y.ts\<close> and \<open>z.ts\<close>, and the loop returns
  with all four files written; with a worker that rejects the types of \<open>base.ts\<close> the
  first round fails and the loop throws that error.
\<close>

theorem nested_batch_scheduling_witness:
  "map dc_id (demo_configs demo_cycle ''/proj/a.ts'') = [''/proj/a.ts'', ''/proj/b.ts'', ''/proj/c.ts'']
   \<and> map dc_id (batchToGenerate (demo_configs demo_cycle ''/proj/a.ts'') []) = [''/proj/c.ts'']
   \<and> map dc_id (remove_batch (batchToGenerate (demo_configs demo_cycle ''/proj/a.ts'') [])
                   (demo_configs demo_cycle ''/proj/a.ts''))
       = [''/proj/a.ts'', ''/proj/b.ts'']
   \<and> batchToGenerate
         (remove_batch (batchToGenerate (demo_configs demo_cycle ''/proj/a.ts'') [])
            (demo_configs demo_cycle ''/proj/a.ts''))
         [''/proj/c.ts''] = []
   \<and> fst (generation_loop (demo_env [] []) demo_flags
           (buildGlobalIoMappings (map dc_config (demo_configs demo_cycle ''/proj/a.ts'')))
           (remove_batch (batchToGenerate (demo_configs demo_cycle ''/proj/a.ts'') [])
              (demo_configs demo_cycle ''/proj/a.ts''))
           [''/proj/c.ts''] 1 (demo_world demo_cycle))
       = Some ''Could not determine generation order. Possible circular dependency or missing files among: a.ts, b.ts. Please check your imports.''
   \<and> fst (generation_loop (demo_env [] []) demo_flags
           (buildGlobalIoMappings (map dc_config (demo_configs demo_cycle ''/proj/a.ts'')))
           (demo_configs demo_cycle ''/proj/a.ts'') [] 0 (demo_world demo_cycle))
       = Some ''Could not determine generation order. Possible circular dependency or missing files among: a.ts, b.ts. Please check your imports.''
   \<and> writes (trace (snd (snd (generation_loop (demo_env [] []) demo_flags
           (buildGlobalIoMappings (map dc_config (demo_configs demo_cycle ''/proj/a.ts'')))
           (demo_configs demo_cycle ''/proj/a.ts'') [] 0 (demo_world demo_cycle)))))
       = [(''/proj/c.zod.ts'', ''schemas importing ./c'')]
   \<and> fs (snd (snd (generation_loop (demo_env [] []) demo_flags
           (buildGlobalIoMappings (map dc_config (demo_configs demo_cycle ''/proj/a.ts'')))
           (demo_configs demo_cycle ''/proj/a.ts'') [] 0 (demo_world demo_cycle))))
         ''/proj/c.zod.ts''
       = Some (File ''schemas importing ./c'')
   \<and> map dc_id (demo_configs demo_fan ''/proj/x.ts'')
       = [''/proj/x.ts'', ''/proj/y.ts'', ''/proj/base.ts'', ''/proj/z.ts'']
   \<and> map dc_id (batchToGenerate (demo_configs demo_fan ''/proj/x.ts'') []) = [''/proj/base.ts'']
   \<and> fst (batch_round (demo_env [] []) demo_flags
           (buildGlobalIoMappings (map dc_config (demo_configs demo_fan ''/proj/x.ts'')))
           (demo_configs demo_fan ''/proj/x.ts'') [] (demo_world demo_fan)) = None
   \<and> generation_loop (demo_env [] []) demo_flags
         (buildGlobalIoMappings (map dc_config (demo_configs demo_fan ''/proj/x.ts'')))
         (demo_configs demo_fan ''/proj/x.ts'') [] 0 (demo_world demo_fan)
       = generation_loop (demo_env [] []) demo_flags
           (buildGlobalIoMappings (map dc_config (demo_configs demo_fan ''/proj/x.ts'')))
           (remove_batch (batchToGenerate (demo_configs demo_fan ''/proj/x.ts'') [])
              (demo_configs demo_fan ''/proj/x.ts''))
           [''/proj/base.ts''] 1
           (emit (Log [])
              (snd (snd (batch_round (demo_env [] []) demo_flags
                 (buildGlobalIoMappings (map dc_config (demo_configs demo_fan ''/proj/x.ts'')))
                 (demo_configs demo_fan ''/proj/x.ts'') [] (demo_world demo_fan)))))
   \<and> map dc_id (batchToGenerate
         (remove_batch (batchToGenerate (demo_configs demo_fan ''/proj/x.ts'') [])
            (demo_configs demo_fan ''/proj/x.ts''))
         [''/proj/base.ts''])
       = [''/proj/y.ts'', ''/proj/z.ts'']
   \<and> fst (generation_loop (demo_env [] []) demo_flags
           (buildGlobalIoMappings (map dc_config (demo_configs demo_fan ''/proj/x.ts'')))
           (demo_configs demo_fan ''/proj/x.ts'') [] 0 (demo_world demo_fan)) = None
   \<and> writes (trace (snd (snd (generation_loop (demo_env [] []) demo_flags
           (buildGlobalIoMappings (map dc_config (demo_configs demo_fan ''/proj/x.ts'')))
           (demo_configs demo_fan ''/proj/x.ts'') [] 0 (demo_world demo_fan)))))
       = [(''/proj/base.zod.ts'', ''schemas importing ./base''),
          (''/proj/y.zod.ts'', ''schemas importing ./y''),
          (''/proj/z.zod.ts'', ''schemas importing ./z''),
          (''/proj/x.zod.ts'', ''schemas importing ./x'')]
   \<and> fst (batch_round (demo_env [] [''type B = string'']) demo_flags
           (buildGlobalIoMappings (map dc_config (demo_configs demo_fan ''/proj/x.ts'')))
           (demo_configs demo_fan ''/proj/x.ts'') [] (demo_world demo_fan))
       = Some ''Error generating for base.ts: types of base.ts do not match''
   \<and> fst (generation_loop (demo_env [] [''type B = string'']) demo_flags
           (buildGlobalIoMappings (map dc_config (demo_configs demo_fan ''/proj/x.ts'')))
           (demo_configs demo_fan ''/proj/x.ts'') [] 0 (demo_world demo_fan))
       = Some ''Error during batch generation: Error generating for base.ts: types of base.ts do not match''"
proof -
  let ?E = "demo_env [] []"
  let ?Q = "demo_configs demo_cycle ''/proj/a.ts''"
  let ?ios = "buildGlobalIoMappings (map dc_config ?Q)"
  let ?Q1 = "remove_batch (batchToGenerate ?Q []) ?Q"
  let ?w = "demo_world demo_cycle"
  let ?msg = "''Could not determine generation order. Possible circular dependency or missing files among: a.ts, b.ts. Please check your imports.''"
  have q: "map dc_id ?Q = [''/proj/a.ts'', ''/proj/b.ts'', ''/proj/c.ts'']" by code_simp
  have b0: "map dc_id (batchToGenerate ?Q []) = [''/proj/c.ts'']" by code_simp
  have q1: "map dc_id ?Q1 = [''/proj/a.ts'', ''/proj/b.ts'']" by code_simp
  then have ne: "?Q1 \<noteq> []" by auto
  have "map dc_id (batchToGenerate ?Q1 [''/proj/c.ts'']) = []" by code_simp
  then have b1: "batchToGenerate ?Q1 [''/proj/c.ts''] = []" by simp
  have m: "''Could not determine generation order. Possible circular dependency or missing files among: ''
             @ js_join '', '' (map (\<lambda>item. cfg_input (dc_config item)) ?Q1)
             @ ''. Please check your imports.'' = ?msg"
    by code_simp
  from nested_batch_scheduling [OF ne, of "[''/proj/c.ts'']" ?E demo_flags ?ios ?w 1 ?w] b1
  have "generation_loop ?E demo_flags ?ios ?Q1 [''/proj/c.ts''] 1 ?w
          = (Some (''Could not determine generation order. Possible circular dependency or missing files among: ''
                       @ js_join '', '' (map (\<lambda>item. cfg_input (dc_config item)) ?Q1)
                       @ ''. Please check your imports.''),
                 1,
                 emit (ErrorExit
                   (''Could not determine generation order. Possible circular dependency or missing files among: ''
                    @ js_join '', '' (map (\<lambda>item. cfg_input (dc_config item)) ?Q1)
                    @ ''. Please check your imports.'')) ?w)"
    by blast
  then have d: "fst (generation_loop ?E demo_flags ?ios ?Q1 [''/proj/c.ts''] 1 ?w) = Some ?msg"
    unfolding m by simp
  have r: "fst (generation_loop ?E demo_flags ?ios ?Q [] 0 ?w) = Some ?msg" by code_simp
  have wr: "writes (trace (snd (snd (generation_loop ?E demo_flags ?ios ?Q [] 0 ?w))))
       = [(''/proj/c.zod.ts'', ''schemas importing ./c'')]" by code_simp
  have f: "fs (snd (snd (generation_loop ?E demo_flags ?ios ?Q [] 0 ?w))) ''/proj/c.zod.ts''
       = Some (File ''schemas importing ./c'')" by code_simp
  let ?F = "demo_configs demo_fan ''/proj/x.ts''"
  let ?iosF = "buildGlobalIoMappings (map dc_config ?F)"
  let ?wf = "demo_world demo_fan"
  let ?B = "demo_env [] [''type B = string'']"
  let ?rest = "remove_batch (batchToGenerate ?F []) ?F"
  let ?round = "batch_round ?E demo_flags ?iosF ?F [] ?wf"
  let ?failed = "batch_round ?B demo_flags ?iosF ?F [] ?wf"
  have qf: "map dc_id ?F = [''/proj/x.ts'', ''/proj/y.ts'', ''/proj/base.ts'', ''/proj/z.ts'']"
    by code_simp
  then have nf: "?F \<noteq> []" by auto
  have bf: "map dc_id (batchToGenerate ?F []) = [''/proj/base.ts'']" by code_simp
  then have bne: "batchToGenerate ?F [] \<noteq> []" by auto
  from bf have "length (map dc_id (batchToGenerate ?F [])) = 1" by simp
  then have lf: "length (batchToGenerate ?F []) = 1" by simp
  have rf: "fst ?round = None" by code_simp
  have gf: "fst (snd ?round) = [''/proj/base.ts'']" by code_simp
  have "map dc_id ?rest = [''/proj/x.ts'', ''/proj/y.ts'', ''/proj/z.ts'']" by code_simp
  then have rne: "?rest \<noteq> []" by auto
  note fan = nested_batch_scheduling [OF nf, of "[]" ?E demo_flags ?iosF ?wf 0 ?wf]
  have "generation_loop ?E demo_flags ?iosF ?F [] 0 ?wf
        = generation_loop ?E demo_flags ?iosF ?rest (fst (snd ?round))
            (0 + length (batchToGenerate ?F []))
            (if ?rest \<noteq> [] then emit (Log []) (snd (snd ?round)) else snd (snd ?round))"
    by (rule fan [THEN conjunct2, THEN conjunct2, THEN conjunct2, THEN conjunct1, THEN mp,
                  OF conjI [OF bne rf]])
  then have st: "generation_loop ?E demo_flags ?iosF ?F [] 0 ?wf
        = generation_loop ?E demo_flags ?iosF ?rest [''/proj/base.ts''] 1
            (emit (Log []) (snd (snd ?round)))"
    unfolding gf lf if_P [OF rne] by (simp only: add_0)
  have b2: "map dc_id (batchToGenerate ?rest [''/proj/base.ts'']) = [''/proj/y.ts'', ''/proj/z.ts'']"
    by code_simp
  have ok: "fst (generation_loop ?E demo_flags ?iosF ?F [] 0 ?wf) = None" by code_simp
  have wf: "writes (trace (snd (snd (generation_loop ?E demo_flags ?iosF ?F [] 0 ?wf))))
       = [(''/proj/base.zod.ts'', ''schemas importing ./base''),
          (''/proj/y.zod.ts'', ''schemas importing ./y''),
          (''/proj/z.zod.ts'', ''schemas importing ./z''),
          (''/proj/x.zod.ts'', ''schemas importing ./x'')]"
    by code_simp
  have fb: "fst ?failed = Some ''Error generating for base.ts: types of base.ts do not match''"
    by code_simp
  note bad = nested_batch_scheduling [OF nf, of "[]" ?B demo_flags ?iosF ?wf 0 ?wf]
  have "generation_loop ?B demo_flags ?iosF ?F [] 0 ?wf
        = (Some (''Error during batch generation: '' @
                 ''Error generating for base.ts: types of base.ts do not match''), 0,
           emit (ErrorExit (''Error during batch generation: '' @
                 ''Error generating for base.ts: types of base.ts do not match''))
             (snd (snd ?failed)))"
    by (rule bad [THEN conjunct2, THEN conjunct2, THEN conjunct2, THEN conjunct2, THEN conjunct1,
                  THEN spec, THEN mp, OF conjI [OF bne fb]])
  then have fl: "fst (generation_loop ?B demo_flags ?iosF ?F [] 0 ?wf)
       = Some ''Error during batch generation: Error generating for base.ts: types of base.ts do not match''"
    by simp
  from q b0 q1 b1 d r wr f qf bf rf st b2 ok wf fb fl show ?thesis by (intro conjI)
qed

section \<open>Properties of the run over all configs\<close>




lemma generated_message_nonempty [simp]:
  "generated_message \<noteq> []" "[] \<noteq> generated_message"
  by (simp_all add: generated_message_def)

lemma fs_announce_config [simp]: "fs (announce_config c w) = fs w"
  by (simp add: announce_config_def)
















end
